theory Spec2Isabelle
  imports Complex_Main "HOL-Library.Sublist"
begin

section \<open>Strings as the source uses them\<close>

text \<open>
  A source string is a \<open>string\<close>: one \<open>char\<close> per code unit, which covers every text
  whose code units lie in the Latin-1 range. \<open>length\<close> is the source's \<open>.length\<close>.
\<close>

definition digit_char :: "nat \<Rightarrow> char" where
  "digit_char d =
     (if d = 0 then CHR ''0'' else if d = 1 then CHR ''1'' else if d = 2 then CHR ''2''
      else if d = 3 then CHR ''3'' else if d = 4 then CHR ''4'' else if d = 5 then CHR ''5''
      else if d = 6 then CHR ''6'' else if d = 7 then CHR ''7'' else if d = 8 then CHR ''8''
      else CHR ''9'')"

text \<open>The decimal rendering a template literal gives a non-negative integer.\<close>

function show_nat :: "nat \<Rightarrow> string" where
  "show_nat n = (if n < 10 then [digit_char n] else show_nat (n div 10) @ [digit_char (n mod 10)])"
  by pat_completeness auto
termination
  by (relation "measure id") auto

declare show_nat.simps [simp del]

definition show_int :: "int \<Rightarrow> string" where
  "show_int i = (if i < 0 then CHR ''-'' # show_nat (nat (- i)) else show_nat (nat i))"

text \<open>\<open>Array.prototype.join\<close>.\<close>

fun join :: "string \<Rightarrow> string list \<Rightarrow> string" where
  "join sep [] = []"
| "join sep [x] = x"
| "join sep (x # y # ys) = x @ sep @ join sep (y # ys)"

text \<open>\<open>String.prototype.includes\<close>: some position of the text starts with the pattern.\<close>

fun str_includes :: "string \<Rightarrow> string \<Rightarrow> bool" where
  "str_includes [] sub = (sub = [])"
| "str_includes (c # cs) sub = (prefix sub (c # cs) \<or> str_includes cs sub)"

text \<open>\<open>String.prototype.toLowerCase\<close> on Latin-1 code units.\<close>

definition lower_char :: "char \<Rightarrow> char" where
  "lower_char c =
     (let n = (of_char c :: nat)
      in if (65 \<le> n \<and> n \<le> 90) \<or> (192 \<le> n \<and> n \<le> 222 \<and> n \<noteq> 215)
         then char_of (n + 32) else c)"

definition toLowerCase :: "string \<Rightarrow> string" where
  "toLowerCase s = map lower_char s"

text \<open>
  \<open>[...new Set(xs)]\<close>: a \<open>Set\<close> keeps insertion order, so the first occurrence of every
  element survives, in the order of first appearance.
\<close>

definition set_add :: "'a list \<Rightarrow> 'a \<Rightarrow> 'a list" where
  "set_add seen x = (if x \<in> set seen then seen else seen @ [x])"

definition new_Set :: "'a list \<Rightarrow> 'a list" where
  "new_Set xs = foldl set_add [] xs"

section \<open>Data model\<close>

record UsageMetadata =
  promptTokenCount :: int
  candidatesTokenCount :: int
  totalTokenCount :: int

text \<open>\<open>chunk.web?.uri\<close>: \<open>None\<close> when the chunk has no \<open>web\<close> or the \<open>web\<close> has no \<open>uri\<close>.\<close>

record GroundingChunk =
  web_uri :: "string option"

record GroundingSupport =
  groundingChunkIndices :: "nat list option"

record GroundingMetadata =
  webSearchQueries :: "string list option"
  groundingSupports :: "GroundingSupport list option"
  groundingChunks :: "GroundingChunk list option"

record ChatRequest =
  req_message :: string
  req_model :: string
  req_temperature :: real
  req_maxTokens :: int
  req_grounding :: bool

record ChatResponse =
  content :: string
  groundingMetadata :: "GroundingMetadata option"
  usageMetadata :: "UsageMetadata option"

record ResearchStep =
  query :: string
  response :: string
  sources :: "string list"
  step_usageMetadata :: UsageMetadata

record ModelInfo =
  name :: string
  displayName :: string
  description :: string
  contextWindow :: int

record McpError =
  message :: string
  code :: string
  statusCode :: int

section \<open>Source extractor\<close>

text \<open>\<open>\s\<close> on Latin-1 code units: tab, line feed, vertical tab, form feed, carriage
  return, space and no-break space.\<close>

definition is_space :: "char \<Rightarrow> bool" where
  "is_space c = ((of_char c :: nat) \<in> {9, 10, 11, 12, 13, 32, 160})"

text \<open>The class \<open>[^\s)]\<close>.\<close>

definition url_char :: "char \<Rightarrow> bool" where
  "url_char c = (\<not> is_space c \<and> c \<noteq> CHR '')'')"

text \<open>
  The regular expression \<open>/https?:\/\/[^\s)]+/\<close> tried at the start of a text: the
  matched text and what follows it. The optional \<open>s\<close> is tried first; the class is greedy.
\<close>

definition url_match_at :: "string \<Rightarrow> (string \<times> string) option" where
  "url_match_at s =
     (if prefix ''https://'' s \<and> takeWhile url_char (drop 8 s) \<noteq> []
      then Some (''https://'' @ takeWhile url_char (drop 8 s), dropWhile url_char (drop 8 s))
      else if prefix ''http://'' s \<and> takeWhile url_char (drop 7 s) \<noteq> []
      then Some (''http://'' @ takeWhile url_char (drop 7 s), dropWhile url_char (drop 7 s))
      else None)"

text \<open>\<open>content.match(urlRegex)\<close> with the \<open>g\<close> flag: the successive leftmost matches,
  each search starting where the previous match ended (no match at all gives \<open>null\<close>,
  which the caller treats as no URL).\<close>

function url_matches :: "string \<Rightarrow> string list" where
  "url_matches [] = []"
| "url_matches (c # cs) =
     (case url_match_at (c # cs) of
        Some (m, rest) \<Rightarrow> m # url_matches rest
      | None \<Rightarrow> url_matches cs)"
  by pat_completeness auto
termination
proof (relation "measure length")
  show "wf (measure length)" by simp
next
  fix c :: char and cs :: string and x2 :: "string \<times> string" and m rest :: string
  assume "url_match_at (c # cs) = Some x2" and "(m, rest) = x2"
  then have "url_match_at (c # cs) = Some (m, rest)" by simp
  then have "length rest \<le> length (drop 7 (c # cs))"
    by (auto simp: url_match_at_def length_dropWhile_le split: if_splits
        intro: order_trans [OF length_dropWhile_le])
  then show "(rest, c # cs) \<in> measure length" by simp
next
  fix c :: char and cs :: string
  show "(cs, c # cs) \<in> measure length" by simp
qed

text \<open>\<open>url.replace(/[.,;:]+$/, '')\<close>: the trailing run of these four characters goes.\<close>

definition is_trail_punct :: "char \<Rightarrow> bool" where
  "is_trail_punct c = (c = CHR ''.'' \<or> c = CHR '','' \<or> c = CHR '';'' \<or> c = CHR '':'')"

definition strip_trailing :: "string \<Rightarrow> string" where
  "strip_trailing url = rev (dropWhile is_trail_punct (rev url))"

definition push_clean :: "string list \<Rightarrow> string \<Rightarrow> string list" where
  "push_clean srcs url =
     (let cleanUrl = strip_trailing url
      in if length cleanUrl > 10 then srcs @ [cleanUrl] else srcs)"

definition extractSources :: "string \<Rightarrow> string list" where
  "extractSources text = new_Set (foldl push_clean [] (url_matches text))"

section \<open>Context compactor\<close>

text \<open>
  The character budget \<open>maxTokens * 4 * 0.8\<close> is a real number. On the integers a run
  meets, the source's floating-point product is either exact or at least \<open>1/5\<close> away from
  every integer, so comparing a length against the real product decides as the source does.
\<close>

definition step_summary :: "nat \<Rightarrow> ResearchStep \<Rightarrow> string" where
  "step_summary i step =
     (let summaryLength = min 1000 (length (response step))
      in ''Previous finding '' @ show_nat (i + 1) @ '': '' @ take summaryLength (response step)
         @ (if summaryLength < length (response step) then ''...'' else [])
         @ ''\<newline>\<newline>'')"

text \<open>The loop \<open>for (let i = steps.length - 1; i >= 0; i--)\<close>; the counter is \<open>i + 1\<close>.\<close>

fun smart_loop :: "ResearchStep list \<Rightarrow> real \<Rightarrow> nat \<Rightarrow> string \<Rightarrow> nat \<Rightarrow> string" where
  "smart_loop steps maxChars 0 context currentLength = context"
| "smart_loop steps maxChars (Suc i) context currentLength =
     (let stepSummary = step_summary i (steps ! i)
      in if real (currentLength + length stepSummary) > maxChars then context
         else smart_loop steps maxChars i (stepSummary @ context)
                (currentLength + length stepSummary))"

definition buildSmartContext :: "ResearchStep list \<Rightarrow> int \<Rightarrow> string" where
  "buildSmartContext steps maxTokens =
     (if steps = [] then []
      else smart_loop steps (real_of_int maxTokens * 4 * 0.8) (length steps) [] 0)"

text \<open>
  \<open>substring(0, n)\<close> takes a negative \<open>n\<close> as \<open>0\<close> and an \<open>n\<close> beyond the end as the
  length: it is \<open>take (nat n)\<close>. With no step at all the source divides by zero and then
  maps over nothing; the context is the empty string, as it is here.
\<close>

definition maxCharsPerStep :: "ResearchStep list \<Rightarrow> int \<Rightarrow> int" where
  "maxCharsPerStep steps maxTokens =
     \<lfloor>real_of_int (maxTokens * 4) / real (length steps)\<rfloor>"

definition synthesis_piece :: "int \<Rightarrow> nat \<Rightarrow> ResearchStep \<Rightarrow> string" where
  "synthesis_piece perStep i step =
     (let truncatedResponse =
            (if int (length (response step)) > perStep
             then take (nat perStep) (response step) @ ''...''
             else response step)
      in ''Research Iteration '' @ show_nat (i + 1) @ '':\<newline>'' @ truncatedResponse)"

text \<open>\<open>steps.map((step, i) => ...)\<close>, the index counted from \<open>i\<close>.\<close>

fun map_index :: "(nat \<Rightarrow> 'a \<Rightarrow> 'b) \<Rightarrow> nat \<Rightarrow> 'a list \<Rightarrow> 'b list" where
  "map_index f i [] = []"
| "map_index f i (x # xs) = f i x # map_index f (Suc i) xs"

definition buildSynthesisContext :: "ResearchStep list \<Rightarrow> int \<Rightarrow> string" where
  "buildSynthesisContext steps maxTokens =
     join ''\<newline>\<newline>'' (map_index (synthesis_piece (maxCharsPerStep steps maxTokens)) 0 steps)"

section \<open>Model backend adapter: grounded citations\<close>

text \<open>The body of the two nested \<open>for\<close> loops, for one chunk index: the citation links
  pushed so far and the chunk indices used so far.\<close>

definition cite_index ::
  "GroundingChunk list \<Rightarrow> string list \<times> nat list \<Rightarrow> nat \<Rightarrow> string list \<times> nat list" where
  "cite_index chunks st chunkIndex =
     (case st of (citationLinks, usedChunkIndices) \<Rightarrow>
        if chunkIndex < length chunks \<and> chunkIndex \<notin> set usedChunkIndices
        then (case web_uri (chunks ! chunkIndex) of
                Some uri \<Rightarrow>
                  if uri \<noteq> [] then (citationLinks @ [uri], usedChunkIndices @ [chunkIndex])
                  else st
              | None \<Rightarrow> st)
        else st)"

text \<open>\<open>support.groundingChunkIndices || []\<close>, and the same default for the three lists
  of the metadata.\<close>

definition indices_of :: "GroundingSupport \<Rightarrow> nat list" where
  "indices_of support =
     (case groundingChunkIndices support of None \<Rightarrow> [] | Some indices \<Rightarrow> indices)"

definition supports_of :: "GroundingMetadata \<Rightarrow> GroundingSupport list" where
  "supports_of gm = (case groundingSupports gm of None \<Rightarrow> [] | Some xs \<Rightarrow> xs)"

definition chunks_of :: "GroundingMetadata \<Rightarrow> GroundingChunk list" where
  "chunks_of gm = (case groundingChunks gm of None \<Rightarrow> [] | Some xs \<Rightarrow> xs)"

definition queries_of :: "GroundingMetadata \<Rightarrow> string list" where
  "queries_of gm = (case webSearchQueries gm of None \<Rightarrow> [] | Some qs \<Rightarrow> qs)"

definition cite_support ::
  "GroundingChunk list \<Rightarrow> string list \<times> nat list \<Rightarrow> GroundingSupport
     \<Rightarrow> string list \<times> nat list" where
  "cite_support chunks st support = foldl (cite_index chunks) st (indices_of support)"

definition citationLinks :: "GroundingSupport list \<Rightarrow> GroundingChunk list \<Rightarrow> string list" where
  "citationLinks supports chunks = fst (foldl (cite_support chunks) ([], []) supports)"

definition searchInfo :: "string list \<Rightarrow> string" where
  "searchInfo queries = ''\<newline>\<newline>Search queries used: '' @ join '', '' queries"

text \<open>The two closing \<open>if\<close> statements, each appending a line or nothing.\<close>

definition sources_line :: "string list \<Rightarrow> string" where
  "sources_line links =
     (if length links > 0
      then ''\<newline>\<newline>Sources: '' @ join '' '' (map (\<lambda>url. ''('' @ url @ '')'') links)
      else [])"

definition queries_line :: "string list \<Rightarrow> string" where
  "queries_line queries = (if queries \<noteq> [] then searchInfo queries else [])"

definition addInlineCitations :: "string \<Rightarrow> GroundingMetadata \<Rightarrow> string" where
  "addInlineCitations txt gm =
     (let supports = supports_of gm; chunks = chunks_of gm; queries = queries_of gm
      in if queries \<noteq> [] \<and> supports = [] \<and> chunks = [] then txt @ searchInfo queries
         else if supports = [] \<or> chunks = [] then txt
         else txt @ sources_line (citationLinks supports chunks) @ queries_line queries)"

text \<open>
  The citations as the specification words them: the chunk indices some support refers
  to, kept when in range and when the chunk has a non-empty URI, each once, in the order
  of first reference; and the URI of such a chunk.
\<close>

definition citable :: "GroundingChunk list \<Rightarrow> nat \<Rightarrow> bool" where
  "citable chunks i =
     (i < length chunks
      \<and> (case web_uri (chunks ! i) of Some uri \<Rightarrow> uri \<noteq> [] | None \<Rightarrow> False))"

definition cited_indices :: "GroundingSupport list \<Rightarrow> GroundingChunk list \<Rightarrow> nat list" where
  "cited_indices supports chunks =
     new_Set (filter (citable chunks) (concat (map indices_of supports)))"

definition uri_at :: "GroundingChunk list \<Rightarrow> nat \<Rightarrow> string" where
  "uri_at chunks i = (case web_uri (chunks ! i) of Some uri \<Rightarrow> uri | None \<Rightarrow> [])"

section \<open>Model catalog: the default model\<close>

definition is_digit :: "char \<Rightarrow> bool" where
  "is_digit c = (48 \<le> (of_char c :: nat) \<and> (of_char c :: nat) \<le> 57)"

definition digits_value :: "string \<Rightarrow> nat" where
  "digits_value ds = foldl (\<lambda>a c. 10 * a + ((of_char c :: nat) - 48)) 0 ds"

text \<open>
  \<open>modelName.match(/(\d+\.?\d*)/)\<close> and \<open>parseFloat\<close> of the match: the first run of digits,
  a dot when one follows, and the digits after it. The version is the decimal number
  itself; \<open>parseFloat\<close> rounds it to a double, which keeps the order of the short decimals
  that model names carry.
\<close>

definition extractVersion :: "string \<Rightarrow> real" where
  "extractVersion modelName =
     (let s = dropWhile (\<lambda>c. \<not> is_digit c) modelName
      in if s = [] then 0
         else
           (let whole = takeWhile is_digit s
            in case dropWhile is_digit s of
                 c # r \<Rightarrow>
                   if c = CHR ''.''
                   then (let frac = takeWhile is_digit r
                         in real (digits_value whole)
                            + real (digits_value frac) / 10 ^ length frac)
                   else real (digits_value whole)
               | [] \<Rightarrow> real (digits_value whole)))"

text \<open>The three tests on a model name, each on the lower-cased name.\<close>

definition gemini_name :: "string \<Rightarrow> bool" where
  "gemini_name modelName = str_includes (toLowerCase modelName) ''gemini''"

definition stable_name :: "string \<Rightarrow> bool" where
  "stable_name modelName =
     (let lname = toLowerCase modelName
      in \<not> str_includes lname ''-exp'' \<and> \<not> str_includes lname ''-preview''
         \<and> \<not> str_includes lname ''experimental'' \<and> \<not> str_includes lname ''-thinking-'')"

definition flash_name :: "string \<Rightarrow> bool" where
  "flash_name modelName = str_includes (toLowerCase modelName) ''flash''"

text \<open>The comparator handed to \<open>sort\<close>: negative puts \<open>a\<close> first.\<close>

definition compare_models :: "ModelInfo \<Rightarrow> ModelInfo \<Rightarrow> real" where
  "compare_models a b =
     (let versionA = extractVersion (name a); versionB = extractVersion (name b)
      in if versionB \<noteq> versionA then versionB - versionA
         else if flash_name (name a) \<and> \<not> flash_name (name b) then - 1
         else if flash_name (name b) \<and> \<not> flash_name (name a) then 1
         else 0)"

text \<open>
  \<open>Array.prototype.sort\<close> is stable: elements the comparator does not separate keep
  their order. Inserting from the right, each element before the first one it does not
  come after, computes that arrangement.
\<close>

fun insert_by :: "('a \<Rightarrow> 'a \<Rightarrow> real) \<Rightarrow> 'a \<Rightarrow> 'a list \<Rightarrow> 'a list" where
  "insert_by cmp x [] = [x]"
| "insert_by cmp x (y # ys) = (if cmp x y \<le> 0 then x # y # ys else y # insert_by cmp x ys)"

definition sort_by :: "('a \<Rightarrow> 'a \<Rightarrow> real) \<Rightarrow> 'a list \<Rightarrow> 'a list" where
  "sort_by cmp xs = foldr (insert_by cmp) xs []"

text \<open>The value of \<open>geminiModels\<close> when it is sorted: the models named after the product,
  narrowed to the stable ones unless experimental models are allowed or none is stable.\<close>

definition candidates :: "bool \<Rightarrow> ModelInfo list \<Rightarrow> ModelInfo list" where
  "candidates allowExperimentalModels models =
     (let geminiModels = filter (\<lambda>m. gemini_name (name m)) models;
          stableModels = filter (\<lambda>m. stable_name (name m)) geminiModels
      in if \<not> allowExperimentalModels \<and> length stableModels > 0 then stableModels
         else geminiModels)"

text \<open>
  \<open>selectDefaultModel\<close>; \<open>None\<close> is \<open>null\<close>. The flag is \<open>config.allowExperimentalModels\<close>.
  The sorted list is never empty where its first element is read.
\<close>

definition selectDefaultModel :: "bool \<Rightarrow> ModelInfo list \<Rightarrow> string option" where
  "selectDefaultModel allowExperimentalModels models =
     (case models of
        [] \<Rightarrow> None
      | first # _ \<Rightarrow>
          if length (filter (\<lambda>m. gemini_name (name m)) models) = 0 then Some (name first)
          else
            (case sort_by compare_models (candidates allowExperimentalModels models) of
               best # _ \<Rightarrow> Some (name best)
             | [] \<Rightarrow> None))"

section \<open>The deep-research tool: arguments\<close>

text \<open>
  \<open>execute(args: any)\<close> reads four properties of its argument; an absent property is
  \<open>None\<close>.
\<close>

record DeepResearchArgs =
  research_question :: string
  model :: "string option"
  max_iterations :: "int option"
  focus_areas :: "string list option"

text \<open>
  \<open>Math.min(args.max_iterations || 5, 10)\<close>: \<open>||\<close> takes its right operand when the left
  one is absent or \<open>0\<close>.
\<close>

definition maxIterations :: "DeepResearchArgs \<Rightarrow> int" where
  "maxIterations args =
     min (case max_iterations args of None \<Rightarrow> 5 | Some n \<Rightarrow> if n = 0 then 5 else n) 10"

section \<open>The deep-research tool: the run\<close>

text \<open>What \<open>execute\<close> reads of the service before the loop.\<close>

record GeminiService =
  availableModels :: "ModelInfo list"
  defaultModel :: string

text \<open>
  What a run takes from outside: the outcome of its \<open>n\<close>-th call of
  \<open>geminiService.chat\<close> (counted from 0), either the message of the error thrown or the
  response, and the two number formats of the closing lines, \<open>toLocaleString()\<close> and
  \<open>((a / b) * 100).toFixed(1)\<close>, which depend on the host's locale and floating point.
\<close>

record Host =
  chat_outcome :: "nat \<Rightarrow> string + ChatResponse"
  toLocaleString :: "int \<Rightarrow> string"
  utilization :: "int \<Rightarrow> int \<Rightarrow> string"

definition getModelContextWindow :: "GeminiService \<Rightarrow> string \<Rightarrow> int" where
  "getModelContextWindow svc modelName =
     (case find (\<lambda>m. name m = modelName) (availableModels svc) of
        None \<Rightarrow> 32000
      | Some m \<Rightarrow> if contextWindow m = 0 then 32000 else contextWindow m)"

definition model_name :: "GeminiService \<Rightarrow> DeepResearchArgs \<Rightarrow> string" where
  "model_name svc args =
     (case model args of
        None \<Rightarrow> defaultModel svc
      | Some m \<Rightarrow> if m = [] then defaultModel svc else m)"

definition focusAreas :: "DeepResearchArgs \<Rightarrow> string list" where
  "focusAreas args = (case focus_areas args of None \<Rightarrow> [] | Some fa \<Rightarrow> fa)"

definition modelContextWindow :: "GeminiService \<Rightarrow> DeepResearchArgs \<Rightarrow> int" where
  "modelContextWindow svc args = getModelContextWindow svc (model_name svc args)"

text \<open>\<open>Math.floor(modelContextWindow * 0.20)\<close> and \<open>Math.floor(modelContextWindow * 0.75)\<close>.\<close>

definition synthesisReserve :: "int \<Rightarrow> int" where
  "synthesisReserve W = \<lfloor>real_of_int W * 0.20\<rfloor>"

definition researchBudget :: "int \<Rightarrow> int" where
  "researchBudget W = \<lfloor>real_of_int W * 0.75\<rfloor>"

text \<open>
  The variables of the run. \<open>calls\<close> is not a variable of the source: it logs the
  requests handed to \<open>geminiService.chat\<close> so far, so that its length numbers the next call.
\<close>

record LoopState =
  report :: string
  researchSteps :: "ResearchStep list"
  cumulativeTokens :: int
  consecutiveFailures :: nat
  calls :: "ChatRequest list"

definition initial_report :: "DeepResearchArgs \<Rightarrow> string" where
  "initial_report args =
     ''# Deep Research Report\<newline>\<newline>''
     @ ''## Research Question\<newline>'' @ research_question args @ ''\<newline>\<newline>''
     @ (if length (focusAreas args) > 0
        then ''## Focus Areas\<newline>''
             @ join ''\<newline>'' (map (\<lambda>area. ''- '' @ area) (focusAreas args))
             @ ''\<newline>\<newline>''
        else [])
     @ ''## Research Process\<newline>\<newline>''
     @ ''*Conducting '' @ show_int (maxIterations args) @ '' research iteration''
     @ (if maxIterations args > 1 then ''s'' else [])
     @ '' with Google Search grounding...*\<newline>\<newline>''"

definition initial_state :: "DeepResearchArgs \<Rightarrow> LoopState" where
  "initial_state args =
     \<lparr>report = initial_report args, researchSteps = [], cumulativeTokens = 0,
      consecutiveFailures = 0, calls = []\<rparr>"

text \<open>\<open>(error as Error).message || 'Unknown error'\<close>.\<close>

definition error_message :: "string \<Rightarrow> string" where
  "error_message err = (if err = [] then ''Unknown error'' else err)"

definition iterations_failing :: "string \<Rightarrow> McpError" where
  "iterations_failing errorMessage =
     \<lparr>message =
        ''Multiple research iterations failing consecutively.\<newline>\<newline>''
        @ ''Error: '' @ errorMessage @ ''\<newline>\<newline>''
        @ ''This usually means:\<newline>''
        @ ''1. The question may be too broad or ambiguous\<newline>''
        @ ''2. API rate limits or quota exceeded\<newline>''
        @ ''3. Content filtering or safety blocks\<newline>''
        @ ''4. Network or connectivity issues\<newline>\<newline>''
        @ ''Try:\<newline>''
        @ ''- Breaking the question into smaller, more specific queries\<newline>''
        @ ''- Checking your API quota and rate limits\<newline>''
        @ ''- Simplifying the research question\<newline>''
        @ ''- Waiting a few moments before retrying'',
      code = ''RESEARCH_ITERATIONS_FAILING'', statusCode = 500\<rparr>"

definition all_iterations_failed :: McpError where
  "all_iterations_failed =
     \<lparr>message =
        ''All research iterations failed.\<newline>\<newline>''
        @ ''Possible causes:\<newline>''
        @ ''1. The question format may not be suitable for research\<newline>''
        @ ''2. Google Search grounding is not responding\<newline>''
        @ ''3. API rate limits or quota exceeded\<newline>''
        @ ''4. Network or connectivity issues\<newline>\<newline>''
        @ ''Try:\<newline>''
        @ ''- Rephrasing the question more clearly\<newline>''
        @ ''- Reducing max_iterations to 3\<newline>''
        @ ''- Checking your internet connection and API status\<newline>''
        @ ''- Waiting a few minutes before retrying'',
      code = ''ALL_ITERATIONS_FAILED'', statusCode = 500\<rparr>"

definition budget_note :: "nat \<Rightarrow> string" where
  "budget_note i =
     ''\<newline>*Note: Research stopped at iteration '' @ show_nat (i + 1)
     @ '' due to token budget limits.*\<newline>\<newline>''"

definition failure_note :: "nat \<Rightarrow> string \<Rightarrow> string" where
  "failure_note i errorMessage =
     ''*Iteration '' @ show_nat (i + 1) @ '' failed: '' @ errorMessage @ ''*\<newline>\<newline>''"

definition focused :: "DeepResearchArgs \<Rightarrow> nat \<Rightarrow> bool" where
  "focused args i = (length (focusAreas args) > 0 \<and> i < length (focusAreas args))"

text \<open>The section heading a pass appends to the report before its call.\<close>

definition iteration_heading :: "DeepResearchArgs \<Rightarrow> nat \<Rightarrow> string" where
  "iteration_heading args i =
     (if focused args i
      then ''### Iteration '' @ show_nat (i + 1) @ '': '' @ focusAreas args ! i
           @ ''\<newline>\<newline>''
      else ''### Iteration '' @ show_nat (i + 1) @ ''\<newline>\<newline>'')"

definition iterationPrompt ::
  "GeminiService \<Rightarrow> DeepResearchArgs \<Rightarrow> nat \<Rightarrow> LoopState \<Rightarrow> string" where
  "iterationPrompt svc args i s =
     (let basePrompt =
            (if focused args i
             then research_question args @ ''\<newline>\<newline>Focus specifically on: ''
                  @ focusAreas args ! i
             else research_question args);
          contextContent =
            buildSmartContext (researchSteps s)
              (researchBudget (modelContextWindow svc args) - cumulativeTokens s)
      in if contextContent \<noteq> [] \<and> i > 0
         then basePrompt @ ''\<newline>\<newline>Context from previous research:\<newline>''
              @ contextContent
         else basePrompt)"

definition research_request ::
  "GeminiService \<Rightarrow> DeepResearchArgs \<Rightarrow> nat \<Rightarrow> LoopState \<Rightarrow> ChatRequest" where
  "research_request svc args i s =
     \<lparr>req_message = iterationPrompt svc args i s, req_model = model_name svc args,
      req_temperature = 0.5, req_maxTokens = 8192, req_grounding = True\<rparr>"

text \<open>\<open>if (r.usageMetadata) cumulativeTokens += r.usageMetadata.totalTokenCount\<close>.\<close>

definition add_tokens :: "int \<Rightarrow> ChatResponse \<Rightarrow> int" where
  "add_tokens tokens r =
     (case usageMetadata r of Some u \<Rightarrow> tokens + totalTokenCount u | None \<Rightarrow> tokens)"

definition research_step :: "string \<Rightarrow> ChatResponse \<Rightarrow> ResearchStep" where
  "research_step prompt searchResponse =
     \<lparr>query = prompt, response = content searchResponse,
      sources = extractSources (content searchResponse),
      step_usageMetadata =
        (case usageMetadata searchResponse of
           Some u \<Rightarrow> u
         | None \<Rightarrow> \<lparr>promptTokenCount = 0, candidatesTokenCount = 0, totalTokenCount = 0\<rparr>)\<rparr>"

text \<open>How one pass of the loop body ends: \<open>break\<close>, a thrown error, or the next pass
  (by \<open>continue\<close> or by reaching the end of the body).\<close>

datatype step_result = Break LoopState | Throw McpError LoopState | Next LoopState

fun state_of :: "step_result \<Rightarrow> LoopState" where
  "state_of (Break s) = s"
| "state_of (Throw e s) = s"
| "state_of (Next s) = s"

definition iteration ::
  "GeminiService \<Rightarrow> Host \<Rightarrow> DeepResearchArgs \<Rightarrow> nat \<Rightarrow> LoopState \<Rightarrow> step_result" where
  "iteration svc host args i s =
     (if cumulativeTokens s \<ge> researchBudget (modelContextWindow svc args)
      then Break (s\<lparr>report := report s @ budget_note i\<rparr>)
      else
        (let s1 = s\<lparr>report := report s @ iteration_heading args i,
                    calls := calls s @ [research_request svc args i s]\<rparr>
         in case chat_outcome host (length (calls s)) of
              Inl err \<Rightarrow>
                (let s2 = s1\<lparr>consecutiveFailures := consecutiveFailures s1 + 1\<rparr>;
                     errorMessage = error_message err
                 in if consecutiveFailures s2 \<ge> 2 \<and> length (researchSteps s2) = 0
                    then Throw (iterations_failing errorMessage) s2
                    else Next (s2\<lparr>report := report s2 @ failure_note i errorMessage\<rparr>))
            | Inr searchResponse \<Rightarrow>
                Next (s1\<lparr>cumulativeTokens := add_tokens (cumulativeTokens s1) searchResponse,
                         consecutiveFailures := 0,
                         researchSteps :=
                           researchSteps s1
                           @ [research_step (iterationPrompt svc args i s) searchResponse],
                         report := report s1 @ content searchResponse
                                     @ ''\<newline>\<newline>''\<rparr>)))"

text \<open>
  \<open>for (let i = 0; i < maxIterations; i++)\<close> from pass \<open>i\<close> on. A thrown error leaves
  the loop with the state it was thrown in.
\<close>

function research_loop ::
  "GeminiService \<Rightarrow> Host \<Rightarrow> DeepResearchArgs \<Rightarrow> nat \<Rightarrow> LoopState
     \<Rightarrow> (McpError \<times> LoopState) + LoopState" where
  "research_loop svc host args i s =
     (if int i < maxIterations args
      then (case iteration svc host args i s of
              Break s' \<Rightarrow> Inr s'
            | Throw e s' \<Rightarrow> Inl (e, s')
            | Next s' \<Rightarrow> research_loop svc host args (Suc i) s')
      else Inr s)"
  by pat_completeness auto
termination
  by (relation "measure (\<lambda>(svc, host, args, i, s). nat (maxIterations args - int i))") auto

declare research_loop.simps [simp del]

text \<open>The state a run of the loop ends in, thrown or not.\<close>

fun loop_state :: "(McpError \<times> LoopState) + LoopState \<Rightarrow> LoopState" where
  "loop_state (Inl (e, s)) = s"
| "loop_state (Inr s) = s"

text \<open>The states a run is in at the top of its passes: \<open>reachable svc host args i s\<close>
  when the run arrives at the top of pass \<open>i\<close> in state \<open>s\<close>.\<close>

inductive reachable ::
  "GeminiService \<Rightarrow> Host \<Rightarrow> DeepResearchArgs \<Rightarrow> nat \<Rightarrow> LoopState \<Rightarrow> bool"
  for svc host args where
  start: "reachable svc host args 0 (initial_state args)"
| pass: "reachable svc host args i s \<Longrightarrow> int i < maxIterations args \<Longrightarrow>
         iteration svc host args i s = Next s' \<Longrightarrow> reachable svc host args (Suc i) s'"

code_pred reachable .

definition synthesisPrompt :: "string \<Rightarrow> string \<Rightarrow> string" where
  "synthesisPrompt researchQuestion synthesisContext =
     ''Based on the research conducted, provide a comprehensive synthesis answering: ''
     @ [CHR 0x22] @ researchQuestion @ [CHR 0x22]
     @ ''\<newline>\<newline>Research findings:\<newline>'' @ synthesisContext
     @ ''\<newline>\<newline>Create a synthesis that:\<newline>''
     @ ''1. Directly answers the research question\<newline>''
     @ ''2. Integrates findings from all iterations\<newline>''
     @ ''3. Highlights key insights and patterns\<newline>''
     @ ''4. Notes any contradictions or gaps\<newline>''
     @ ''5. Provides actionable conclusions''"

definition availableForSynthesis :: "GeminiService \<Rightarrow> DeepResearchArgs \<Rightarrow> LoopState \<Rightarrow> int" where
  "availableForSynthesis svc args s =
     min (synthesisReserve (modelContextWindow svc args))
         (modelContextWindow svc args - cumulativeTokens s - 10000)"

definition synthesis_request :: "GeminiService \<Rightarrow> DeepResearchArgs \<Rightarrow> LoopState \<Rightarrow> ChatRequest" where
  "synthesis_request svc args s =
     \<lparr>req_message =
        synthesisPrompt (research_question args)
          (buildSynthesisContext (researchSteps s) (availableForSynthesis svc args s)),
      req_model = model_name svc args, req_temperature = 0.6, req_maxTokens = 16384,
      req_grounding = False\<rparr>"

definition synthesis_error_note :: "string \<Rightarrow> string" where
  "synthesis_error_note errorMessage =
     ''*Note: Synthesis phase encountered an error ('' @ errorMessage
     @ ''). Individual research findings are provided above.*\<newline>\<newline>''"

definition synthesis_placeholder :: string where
  "synthesis_placeholder =
     ''Synthesis unavailable. Please review the individual research findings above.''"

text \<open>The body of \<open>if (researchSteps.length > 1)\<close>.\<close>

definition synthesize :: "GeminiService \<Rightarrow> Host \<Rightarrow> DeepResearchArgs \<Rightarrow> LoopState \<Rightarrow> LoopState" where
  "synthesize svc host args s =
     (let s1 = s\<lparr>report := report s @ ''### Synthesis\<newline>\<newline>'',
                 calls := calls s @ [synthesis_request svc args s]\<rparr>
      in case chat_outcome host (length (calls s)) of
           Inr synthesisResponse \<Rightarrow>
             s1\<lparr>cumulativeTokens := add_tokens (cumulativeTokens s1) synthesisResponse,
                report := report s1 @ content synthesisResponse @ ''\<newline>\<newline>''\<rparr>
         | Inl err \<Rightarrow>
             s1\<lparr>report := report s1 @ synthesis_error_note (error_message err)
                            @ synthesis_placeholder @ ''\<newline>\<newline>''\<rparr>)"

definition sources_section :: "ResearchStep list \<Rightarrow> string" where
  "sources_section steps =
     (let allSources = new_Set (concat (map sources steps))
      in ''### Sources Consulted\<newline>\<newline>''
         @ (if length allSources > 0
            then concat (map_index (\<lambda>i source. show_nat (i + 1) @ ''. '' @ source @ ''\<newline>'')
                           0 allSources)
            else ''*Note: No external sources were cited. This may indicate grounding did not function properly.*\<newline>''))"

definition closing_lines :: "GeminiService \<Rightarrow> Host \<Rightarrow> DeepResearchArgs \<Rightarrow> LoopState \<Rightarrow> string" where
  "closing_lines svc host args s =
     ''\<newline>---\<newline>\<newline>*Research completed with '' @ show_nat (length (researchSteps s))
     @ '' successful iteration'' @ (if length (researchSteps s) > 1 then ''s'' else [])
     @ '' using '' @ model_name svc args @ ''*\<newline>''
     @ ''*Total tokens used: '' @ toLocaleString host (cumulativeTokens s) @ '' / ''
     @ toLocaleString host (modelContextWindow svc args) @ '' available*\<newline>''
     @ ''*Context window utilization: ''
     @ utilization host (cumulativeTokens s) (modelContextWindow svc args) @ ''%*\<newline>''"

text \<open>Everything after the loop, up to the report that \<open>execute\<close> returns.\<close>

definition after_loop ::
  "GeminiService \<Rightarrow> Host \<Rightarrow> DeepResearchArgs \<Rightarrow> LoopState \<Rightarrow> McpError + LoopState" where
  "after_loop svc host args s =
     (if length (researchSteps s) = 0 then Inl all_iterations_failed
      else
        (let s1 = (if length (researchSteps s) > 1 then synthesize svc host args s else s)
         in Inr (s1\<lparr>report := report s1 @ sources_section (researchSteps s1)
                                @ closing_lines svc host args s1\<rparr>)))"

text \<open>
  The \<open>try\<close> block of \<open>execute\<close>: the error thrown, or the state at the \<open>return\<close>.
\<close>

definition execute_run ::
  "GeminiService \<Rightarrow> Host \<Rightarrow> DeepResearchArgs \<Rightarrow> McpError + LoopState" where
  "execute_run svc host args =
     (case research_loop svc host args 0 (initial_state args) of
        Inl (e, s) \<Rightarrow> Inl e
      | Inr s \<Rightarrow> after_loop svc host args s)"

record TextContent =
  tc_type :: string
  tc_text :: string

text \<open>\<open>createToolResult\<close>; \<open>handleError\<close> gives an \<open>McpError\<close> back as it is.\<close>

definition createToolResult :: "bool \<Rightarrow> string \<Rightarrow> McpError option \<Rightarrow> TextContent list" where
  "createToolResult success txt err =
     (if success then [\<lparr>tc_type = ''text'', tc_text = txt\<rparr>]
      else [\<lparr>tc_type = ''text'',
             tc_text = ''Error: '' @ (case err of Some e \<Rightarrow> message e | None \<Rightarrow> txt)\<rparr>])"

definition execute :: "GeminiService \<Rightarrow> Host \<Rightarrow> DeepResearchArgs \<Rightarrow> TextContent list" where
  "execute svc host args =
     (case execute_run svc host args of
        Inr s \<Rightarrow> createToolResult True (report s) None
      | Inl e \<Rightarrow> createToolResult False (message e) (Some e))"

section \<open>Concrete runs\<close>

text \<open>Services, responses and hosts on which the definitions above are run.\<close>

definition example_service :: GeminiService where
  "example_service =
     \<lparr>availableModels =
        [\<lparr>name = ''gemini-2.5-flash'', displayName = ''Gemini 2.5 Flash'',
          description = ''Fast, versatile performance'', contextWindow = 1000000\<rparr>],
      defaultModel = ''gemini-2.5-flash''\<rparr>"

definition example_args :: "int option \<Rightarrow> DeepResearchArgs" where
  "example_args n =
     \<lparr>research_question = ''q'', model = None, max_iterations = n, focus_areas = None\<rparr>"

definition small_response :: ChatResponse where
  "small_response =
     \<lparr>content = ''See http://a.com.'', groundingMetadata = None,
      usageMetadata =
        Some \<lparr>promptTokenCount = 400, candidatesTokenCount = 600, totalTokenCount = 1000\<rparr>\<rparr>"

definition big_response :: ChatResponse where
  "big_response =
     \<lparr>content = ''See http://b.org/x'', groundingMetadata = None,
      usageMetadata =
        Some \<lparr>promptTokenCount = 300000, candidatesTokenCount = 500000,
              totalTokenCount = 800000\<rparr>\<rparr>"

text \<open>Every call fails.\<close>

definition failing_host :: Host where
  "failing_host =
     \<lparr>chat_outcome = (\<lambda>n. Inl ''quota exceeded''), toLocaleString = show_int,
      utilization = (\<lambda>a b. ''0.0'')\<rparr>"


text \<open>The first call spends more than the research budget.\<close>

definition greedy_host :: Host where
  "greedy_host =
     \<lparr>chat_outcome = (\<lambda>n. Inr big_response), toLocaleString = show_int,
      utilization = (\<lambda>a b. ''0.0'')\<rparr>"

text \<open>Three calls succeed, every later one fails.\<close>

definition tiring_host :: Host where
  "tiring_host =
     \<lparr>chat_outcome = (\<lambda>n. if n < 3 then Inr small_response else Inl ''overloaded''),
      toLocaleString = show_int, utilization = (\<lambda>a b. ''0.0'')\<rparr>"

text \<open>The state of the run on \<open>greedy_host\<close> after its first pass.\<close>

definition greedy_state :: LoopState where
  "greedy_state =
     state_of (iteration example_service greedy_host (example_args None) 0
                 (initial_state (example_args None)))"




text \<open>A model with a small window and a host whose every response costs 9000 tokens:
  two passes overshoot the window.\<close>

definition small_service :: GeminiService where
  "small_service =
     \<lparr>availableModels =
        [\<lparr>name = ''gemini-pro-vision'', displayName = ''Gemini Pro Vision'',
          description = ''Multimodal understanding'', contextWindow = 16000\<rparr>],
      defaultModel = ''gemini-pro-vision''\<rparr>"

definition heavy_response :: ChatResponse where
  "heavy_response =
     \<lparr>content = ''abcdefghij'', groundingMetadata = None,
      usageMetadata =
        Some \<lparr>promptTokenCount = 4000, candidatesTokenCount = 5000, totalTokenCount = 9000\<rparr>\<rparr>"

definition heavy_host :: Host where
  "heavy_host =
     \<lparr>chat_outcome = (\<lambda>n. Inr heavy_response), toLocaleString = show_int,
      utilization = (\<lambda>a b. ''0.0'')\<rparr>"

definition heavy_state :: LoopState where
  "heavy_state =
     loop_state (research_loop small_service heavy_host (example_args None) 0
                   (initial_state (example_args None)))"

definition two_steps :: "ResearchStep list" where
  "two_steps =
     [\<lparr>query = ''q'', response = ''abcdefghij'', sources = [],
       step_usageMetadata = \<lparr>promptTokenCount = 0, candidatesTokenCount = 0, totalTokenCount = 0\<rparr>\<rparr>,
      \<lparr>query = ''q'', response = ''xy'', sources = [],
       step_usageMetadata = \<lparr>promptTokenCount = 0, candidatesTokenCount = 0, totalTokenCount = 0\<rparr>\<rparr>]"

text \<open>Grounding metadata: two chunks with one URI, chunks without supports, search
  queries alone, and nothing at all.\<close>

definition twin_chunks :: GroundingMetadata where
  "twin_chunks =
     \<lparr>webSearchQueries = Some [''a query''],
      groundingSupports = Some [\<lparr>groundingChunkIndices = Some [0, 1, 0, 5, 2]\<rparr>],
      groundingChunks =
        Some [\<lparr>web_uri = Some ''http://a.com''\<rparr>, \<lparr>web_uri = Some ''http://a.com''\<rparr>,
              \<lparr>web_uri = None\<rparr>]\<rparr>"

definition chunks_only :: GroundingMetadata where
  "chunks_only =
     \<lparr>webSearchQueries = Some [''a query''], groundingSupports = None,
      groundingChunks = Some [\<lparr>web_uri = Some ''http://a.com''\<rparr>]\<rparr>"

definition queries_only :: GroundingMetadata where
  "queries_only =
     \<lparr>webSearchQueries = Some [''a query'', ''another''], groundingSupports = None,
      groundingChunks = None\<rparr>"

definition bare_metadata :: GroundingMetadata where
  "bare_metadata =
     \<lparr>webSearchQueries = None, groundingSupports = None, groundingChunks = None\<rparr>"

text \<open>What every extracted source looks like, and a text with four URL-like
  substrings.\<close>

definition clean_url :: "string \<Rightarrow> bool" where
  "clean_url u =
     ((prefix ''http://'' u \<or> prefix ''https://'' u) \<and> (\<forall>c \<in> set u. url_char c)
      \<and> \<not> is_trail_punct (last u) \<and> 10 < length u)"

definition example_text :: string where
  "example_text =
     ''See (https://x.org/a,b). Also http://a.com/page;: and http://b.c. and https://x.org/a,b''"

text \<open>Model lists: the built-in fallback names, and a list with experimental names.\<close>

definition model_named :: "string \<Rightarrow> ModelInfo" where
  "model_named n = \<lparr>name = n, displayName = n, description = n, contextWindow = 32000\<rparr>"

definition fallback_names :: "string list" where
  "fallback_names =
     [''gemini-2.5-flash'', ''gemini-2.0-flash'', ''gemini-1.5-flash'', ''gemini-1.5-pro'',
      ''gemini-pro'', ''gemini-pro-vision'']"

definition mixed_names :: "string list" where
  "mixed_names =
     [''text-bison'', ''gemini-exp-1206'', ''Gemini-2.0-pro'', ''gemini-2.5-flash-preview'',
      ''gemini-2.0-flash'']"

section \<open>Properties\<close>

subsection \<open>Rendering small numbers\<close>

lemma show_nat_small [simp]:
  "show_nat 0 = ''0''" "show_nat 1 = ''1''" "show_nat (Suc 0) = ''1''" "show_nat 2 = ''2''"
  "show_nat (Suc (Suc 0)) = ''2''" "show_nat 3 = ''3''"
  by (simp_all add: show_nat.simps digit_char_def)

subsection \<open>Insertion-ordered sets\<close>

lemma foldl_set_add_set: "set (foldl set_add seen xs) = set seen \<union> set xs"
  by (induction xs arbitrary: seen) (auto simp: set_add_def)

lemma foldl_set_add_distinct: "distinct seen \<Longrightarrow> distinct (foldl set_add seen xs)"
  by (induction xs arbitrary: seen) (auto simp: set_add_def)

lemma new_Set_set [simp]: "set (new_Set xs) = set xs"
  by (simp add: new_Set_def foldl_set_add_set)

lemma new_Set_distinct [simp]: "distinct (new_Set xs)"
  by (simp add: new_Set_def foldl_set_add_distinct)

subsection \<open>The research loop, pass by pass\<close>

lemma iteration_break:
  "researchBudget (modelContextWindow svc args) \<le> cumulativeTokens s \<Longrightarrow>
   iteration svc host args i s = Break (s\<lparr>report := report s @ budget_note i\<rparr>)"
  by (simp add: iteration_def)

lemma iteration_fail_throw:
  "cumulativeTokens s < researchBudget (modelContextWindow svc args) \<Longrightarrow>
   chat_outcome host (length (calls s)) = Inl err \<Longrightarrow>
   researchSteps s = [] \<Longrightarrow> 1 \<le> consecutiveFailures s \<Longrightarrow>
   iteration svc host args i s =
     Throw (iterations_failing (error_message err))
       (s\<lparr>report := report s @ iteration_heading args i,
          calls := calls s @ [research_request svc args i s],
          consecutiveFailures := consecutiveFailures s + 1\<rparr>)"
  by (simp add: iteration_def Let_def)

lemma iteration_fail_next:
  "cumulativeTokens s < researchBudget (modelContextWindow svc args) \<Longrightarrow>
   chat_outcome host (length (calls s)) = Inl err \<Longrightarrow>
   researchSteps s \<noteq> [] \<or> consecutiveFailures s = 0 \<Longrightarrow>
   iteration svc host args i s =
     Next (s\<lparr>report := report s @ iteration_heading args i @ failure_note i (error_message err),
          calls := calls s @ [research_request svc args i s],
          consecutiveFailures := consecutiveFailures s + 1\<rparr>)"
  by (auto simp add: iteration_def Let_def)

lemma iteration_ok:
  "cumulativeTokens s < researchBudget (modelContextWindow svc args) \<Longrightarrow>
   chat_outcome host (length (calls s)) = Inr r \<Longrightarrow>
   iteration svc host args i s =
     Next (s\<lparr>report := report s @ iteration_heading args i @ content r @ ''\<newline>\<newline>'',
          calls := calls s @ [research_request svc args i s],
          cumulativeTokens := add_tokens (cumulativeTokens s) r,
          consecutiveFailures := 0,
          researchSteps := researchSteps s @ [research_step (iterationPrompt svc args i s) r]\<rparr>)"
  by (simp add: iteration_def Let_def)


lemma researchBudget_eq: "researchBudget W = W * 3 div 4"
proof -
  have "real_of_int W * 0.75 = real_of_int (W * 3) / real_of_int 4" by simp
  then show ?thesis unfolding researchBudget_def by (simp only: floor_divide_of_int_eq)
qed

lemma synthesisReserve_eq: "synthesisReserve W = W div 5"
proof -
  have "real_of_int W * 0.20 = real_of_int W / real_of_int 5" by simp
  then show ?thesis unfolding synthesisReserve_def by (simp only: floor_divide_of_int_eq)
qed

lemma example_window [simp]: "modelContextWindow example_service (example_args n) = 1000000"
  by (simp add: modelContextWindow_def getModelContextWindow_def model_name_def
      example_service_def example_args_def)

lemma example_budget [simp]: "researchBudget 1000000 = 750000"
  by (simp add: researchBudget_eq)

lemma example_maxIterations [simp]:
  "maxIterations (example_args None) = 5" "maxIterations (example_args (Some 1)) = 1"
  "maxIterations (example_args (Some 3)) = 3"
  by (simp_all add: maxIterations_def example_args_def)

lemma initial_state_simps [simp]:
  "researchSteps (initial_state args) = []" "cumulativeTokens (initial_state args) = 0"
  "consecutiveFailures (initial_state args) = 0" "calls (initial_state args) = []"
  "report (initial_state args) = initial_report args"
  by (simp_all add: initial_state_def)

lemma greedy_first:
  "iteration example_service greedy_host (example_args None) 0 (initial_state (example_args None))
   = Next ((initial_state (example_args None))
        \<lparr>report := initial_report (example_args None)
                    @ iteration_heading (example_args None) 0 @ content big_response
                    @ ''\<newline>\<newline>'',
         calls := [research_request example_service (example_args None) 0
                     (initial_state (example_args None))],
         cumulativeTokens := 800000,
         consecutiveFailures := 0,
         researchSteps :=
           [research_step (iterationPrompt example_service (example_args None) 0
                             (initial_state (example_args None))) big_response]\<rparr>)"
proof -
  have "chat_outcome greedy_host (length (calls (initial_state (example_args None))))
          = Inr big_response"
    by (simp add: greedy_host_def)
  moreover have "cumulativeTokens (initial_state (example_args None))
          < researchBudget (modelContextWindow example_service (example_args None))"
    by simp
  ultimately show ?thesis
    by (simp add: iteration_ok add_tokens_def big_response_def)
qed

lemma loop_done: "\<not> int i < maxIterations args \<Longrightarrow> research_loop svc host args i s = Inr s"
  by (simp add: research_loop.simps)

lemma loop_step_ok:
  "int i < maxIterations args \<Longrightarrow>
   cumulativeTokens s < researchBudget (modelContextWindow svc args) \<Longrightarrow>
   chat_outcome host (length (calls s)) = Inr r \<Longrightarrow>
   research_loop svc host args i s =
     research_loop svc host args (Suc i)
       (s\<lparr>report := report s @ iteration_heading args i @ content r @ ''\<newline>\<newline>'',
          calls := calls s @ [research_request svc args i s],
          cumulativeTokens := add_tokens (cumulativeTokens s) r,
          consecutiveFailures := 0,
          researchSteps := researchSteps s @ [research_step (iterationPrompt svc args i s) r]\<rparr>)"
  by (subst research_loop.simps) (simp add: iteration_ok)


lemma iteration_effect:
  "(case iteration svc host args i s of
      Break s1 \<Rightarrow> calls s1 = calls s \<and> researchSteps s1 = researchSteps s
    | Throw e s1 \<Rightarrow>
        length (calls s1) = Suc (length (calls s)) \<and> researchSteps s1 = researchSteps s
        \<and> isl (chat_outcome host (length (calls s)))
    | Next s1 \<Rightarrow>
        length (calls s1) = Suc (length (calls s))
        \<and> length (researchSteps s1)
            = length (researchSteps s)
              + (if isl (chat_outcome host (length (calls s))) then 0 else 1))"
  by (auto simp: iteration_def Let_def split: sum.splits)



lemma add_tokens_small [simp]: "add_tokens t small_response = t + 1000"
  by (simp add: add_tokens_def small_response_def)




lemma reachable_loop:
  "reachable svc host args i s \<Longrightarrow>
   research_loop svc host args 0 (initial_state args) = research_loop svc host args i s"
proof (induction rule: reachable.induct)
  case start
  show ?case by simp
next
  case (pass i s s')
  have "research_loop svc host args i s = research_loop svc host args (Suc i) s'"
    using pass.hyps(2,3) by (subst research_loop.simps) simp
  with pass.IH show ?case by simp
qed

lemma iteration_next_tokens:
  "iteration svc host args i s = Next s' \<Longrightarrow>
   (researchSteps s = [] \<longrightarrow> cumulativeTokens s = 0) \<Longrightarrow>
   (researchSteps s' = [] \<longrightarrow> cumulativeTokens s' = 0)"
  by (auto simp: iteration_def Let_def split: if_splits sum.splits)

lemma reachable_tokens:
  "reachable svc host args i s \<Longrightarrow> researchSteps s = [] \<longrightarrow> cumulativeTokens s = 0"
proof (induction rule: reachable.induct)
  case start
  show ?case by simp
next
  case (pass i s s')
  then show ?case using iteration_next_tokens by blast
qed

lemma greedy_reachable: "reachable example_service greedy_host (example_args None) 1 greedy_state"
proof -
  have "reachable example_service greedy_host (example_args None) (Suc 0) greedy_state"
    by (rule reachable.pass [OF reachable.start]) (simp_all add: greedy_state_def greedy_first)
  then show ?thesis by simp
qed

subsection \<open>Budget exhaustion\<close>

text \<open>
  C1. Whenever the cumulative token count has reached the research budget at the top of
  the loop before pass \<open>k\<close>, the loop ends there by \<open>break\<close>: no call is made for pass
  \<open>k\<close> or any later pass (the call log is unchanged), the report gets the note that
  research stopped at iteration \<open>k + 1\<close> due to token budget limits, and nothing is thrown;
  the research budget is \<open>floor(0.75 * contextWindow)\<close>. With at least one step recorded
  the run then returns its report, note included; in a run with a positive budget a step
  is always recorded by then, so the run returns its report.
\<close>

theorem budget_exhaustion_guard:
  assumes "researchBudget (modelContextWindow svc args) \<le> cumulativeTokens s"
    and "int k < maxIterations args"
  shows "research_loop svc host args k s = Inr (s\<lparr>report := report s @ budget_note k\<rparr>)
    \<and> calls (loop_state (research_loop svc host args k s)) = calls s
    \<and> sublist (''Research stopped at iteration '' @ show_nat (k + 1)
                 @ '' due to token budget limits'')
        (report (loop_state (research_loop svc host args k s)))
    \<and> researchBudget (modelContextWindow svc args) = modelContextWindow svc args * 3 div 4
    \<and> (researchSteps s \<noteq> [] \<longrightarrow>
         (\<exists>s'. after_loop svc host args (loop_state (research_loop svc host args k s)) = Inr s'
               \<and> sublist (budget_note k) (report s')))
    \<and> (reachable svc host args k s \<and> 0 < researchBudget (modelContextWindow svc args) \<longrightarrow>
         (\<exists>s'. execute_run svc host args = Inr s' \<and> sublist (budget_note k) (report s')))"
proof -
  have loop: "research_loop svc host args k s = Inr (s\<lparr>report := report s @ budget_note k\<rparr>)"
    using assms by (simp add: research_loop.simps iteration_break)
  have inner: "sublist (''Research stopped at iteration '' @ show_nat (k + 1)
                 @ '' due to token budget limits'') (budget_note k)"
    unfolding budget_note_def sublist_def
    by (rule exI [of _ "''\<newline>*Note: ''"], rule exI [of _ "''.*\<newline>\<newline>''"]) simp
  have rep: "sublist (budget_note k) (report s @ budget_note k)" by simp
  have nt: "sublist (''Research stopped at iteration '' @ show_nat (k + 1)
                 @ '' due to token budget limits'') (report s @ budget_note k)"
    using inner rep by (rule sublist_order.order_trans)
  have aft: "researchSteps s \<noteq> [] \<longrightarrow>
         (\<exists>s'. after_loop svc host args (s\<lparr>report := report s @ budget_note k\<rparr>) = Inr s'
               \<and> sublist (budget_note k) (report s'))"
    by (auto simp: after_loop_def synthesize_def Let_def sublist_def split: sum.splits)
  have run: "reachable svc host args k s \<and> 0 < researchBudget (modelContextWindow svc args) \<longrightarrow>
         (\<exists>s'. execute_run svc host args = Inr s' \<and> sublist (budget_note k) (report s'))"
  proof
    assume r: "reachable svc host args k s \<and> 0 < researchBudget (modelContextWindow svc args)"
    with assms(1) have "cumulativeTokens s \<noteq> 0" by auto
    with r reachable_tokens have "researchSteps s \<noteq> []" by blast
    moreover from r have "research_loop svc host args 0 (initial_state args)
        = research_loop svc host args k s"
      by (intro reachable_loop) simp
    with loop have "execute_run svc host args
        = after_loop svc host args (s\<lparr>report := report s @ budget_note k\<rparr>)"
      by (simp add: execute_run_def)
    ultimately show "\<exists>s'. execute_run svc host args = Inr s'
        \<and> sublist (budget_note k) (report s')"
      using aft by simp
  qed
  show ?thesis using loop nt aft run by (simp add: researchBudget_eq)
qed

theorem budget_exhaustion_guard_witness:
  "researchBudget (modelContextWindow example_service (example_args None))
         \<le> cumulativeTokens greedy_state
   \<and> int 1 < maxIterations (example_args None)
   \<and> researchSteps greedy_state \<noteq> []
   \<and> research_loop example_service greedy_host (example_args None) 0
            (initial_state (example_args None))
          = Inr (greedy_state\<lparr>report := report greedy_state @ budget_note 1\<rparr>)
   \<and> length (calls (loop_state (research_loop example_service greedy_host
            (example_args None) 1 greedy_state))) = 1
   \<and> (\<exists>s'. after_loop example_service greedy_host (example_args None)
                   (loop_state (research_loop example_service greedy_host
                      (example_args None) 1 greedy_state)) = Inr s'
               \<and> sublist (budget_note 1) (report s'))
   \<and> reachable example_service greedy_host (example_args None) 1 greedy_state
   \<and> 0 < researchBudget (modelContextWindow example_service (example_args None))
   \<and> (\<exists>s'. execute_run example_service greedy_host (example_args None) = Inr s'
           \<and> sublist (budget_note 1) (report s'))"
proof -
  have h1: "researchBudget (modelContextWindow example_service (example_args None))
         \<le> cumulativeTokens greedy_state"
    by (simp add: greedy_state_def greedy_first)
  have h2: "int 1 < maxIterations (example_args None)" by simp
  have h3: "researchSteps greedy_state \<noteq> []" by (simp add: greedy_state_def greedy_first)
  have c1: "length (calls greedy_state) = 1" by (simp add: greedy_state_def greedy_first)
  have first: "research_loop example_service greedy_host (example_args None) 0
            (initial_state (example_args None))
          = research_loop example_service greedy_host (example_args None) 1 greedy_state"
    by (subst research_loop.simps) (simp add: greedy_state_def greedy_first)
  note g = budget_exhaustion_guard [OF h1 h2, of greedy_host]
  from g have g1: "research_loop example_service greedy_host (example_args None) 1 greedy_state
      = Inr (greedy_state\<lparr>report := report greedy_state @ budget_note 1\<rparr>)"
    by (rule conjunct1)
  from g have g2: "calls (loop_state (research_loop example_service greedy_host
            (example_args None) 1 greedy_state)) = calls greedy_state"
    by blast
  from g h3 have g5: "\<exists>s'. after_loop example_service greedy_host (example_args None)
                   (loop_state (research_loop example_service greedy_host
                      (example_args None) 1 greedy_state)) = Inr s'
               \<and> sublist (budget_note 1) (report s')"
    by blast
  have w4: "research_loop example_service greedy_host (example_args None) 0
            (initial_state (example_args None))
          = Inr (greedy_state\<lparr>report := report greedy_state @ budget_note 1\<rparr>)"
    using first g1 by simp
  have w5: "length (calls (loop_state (research_loop example_service greedy_host
            (example_args None) 1 greedy_state))) = 1"
    using g2 c1 by simp
  have h6: "0 < researchBudget (modelContextWindow example_service (example_args None))"
    by simp
  from g greedy_reachable h6
  have g6: "\<exists>s'. execute_run example_service greedy_host (example_args None) = Inr s'
           \<and> sublist (budget_note 1) (report s')"
    by blast
  show ?thesis by (intro conjI h1 h2 h3 w4 w5 g5 greedy_reachable h6 g6)
qed

subsection \<open>A failed round changes nothing but the failure counter and the report\<close>

text \<open>
  C10. When the call of a pass fails, the cumulative token counter and the recorded steps
  are what they were before the call; the pass only increments the consecutive-failure
  counter and appends text to the report (the call log, which is not a variable of the
  source, gets the request). This holds whether the pass then throws or goes on.
\<close>

theorem failed_round_atomic:
  assumes "cumulativeTokens s < researchBudget (modelContextWindow svc args)"
    and "chat_outcome host (length (calls s)) = Inl err"
  shows "cumulativeTokens (state_of (iteration svc host args i s)) = cumulativeTokens s
    \<and> researchSteps (state_of (iteration svc host args i s)) = researchSteps s
    \<and> consecutiveFailures (state_of (iteration svc host args i s)) = consecutiveFailures s + 1
    \<and> prefix (report s) (report (state_of (iteration svc host args i s)))
    \<and> (\<exists>txt. state_of (iteration svc host args i s)
              = s\<lparr>report := report s @ txt,
                  consecutiveFailures := consecutiveFailures s + 1,
                  calls := calls s @ [research_request svc args i s]\<rparr>)"
proof (cases "researchSteps s = [] \<and> 1 \<le> consecutiveFailures s")
  case True
  then have "iteration svc host args i s =
     Throw (iterations_failing (error_message err))
       (s\<lparr>report := report s @ iteration_heading args i,
          calls := calls s @ [research_request svc args i s],
          consecutiveFailures := consecutiveFailures s + 1\<rparr>)"
    using assms by (simp add: iteration_fail_throw)
  moreover have "\<exists>txt. s\<lparr>report := report s @ iteration_heading args i,
          calls := calls s @ [research_request svc args i s],
          consecutiveFailures := consecutiveFailures s + 1\<rparr>
      = s\<lparr>report := report s @ txt, consecutiveFailures := consecutiveFailures s + 1,
          calls := calls s @ [research_request svc args i s]\<rparr>"
    by (rule exI [of _ "iteration_heading args i"]) simp
  ultimately show ?thesis by simp
next
  case False
  then have "researchSteps s \<noteq> [] \<or> consecutiveFailures s = 0" by auto
  from iteration_fail_next [OF assms this]
  have "iteration svc host args i s =
     Next (s\<lparr>report := report s @ iteration_heading args i
                     @ failure_note i (error_message err),
          calls := calls s @ [research_request svc args i s],
          consecutiveFailures := consecutiveFailures s + 1\<rparr>)" .
  moreover have "\<exists>txt. s\<lparr>report := report s @ iteration_heading args i
                     @ failure_note i (error_message err),
          calls := calls s @ [research_request svc args i s],
          consecutiveFailures := consecutiveFailures s + 1\<rparr>
      = s\<lparr>report := report s @ txt, consecutiveFailures := consecutiveFailures s + 1,
          calls := calls s @ [research_request svc args i s]\<rparr>"
    by (rule exI [of _ "iteration_heading args i @ failure_note i (error_message err)"]) simp
  ultimately show ?thesis by simp
qed

theorem failed_round_atomic_witness:
  "cumulativeTokens (initial_state (example_args None))
     < researchBudget (modelContextWindow example_service (example_args None))
   \<and> chat_outcome failing_host (length (calls (initial_state (example_args None))))
       = Inl ''quota exceeded''
   \<and> cumulativeTokens (state_of (iteration example_service failing_host (example_args None) 0
        (initial_state (example_args None)))) = 0
   \<and> researchSteps (state_of (iteration example_service failing_host (example_args None) 0
        (initial_state (example_args None)))) = []
   \<and> consecutiveFailures (state_of (iteration example_service failing_host (example_args None) 0
        (initial_state (example_args None)))) = 1"
proof -
  have h1: "cumulativeTokens (initial_state (example_args None))
     < researchBudget (modelContextWindow example_service (example_args None))" by simp
  have h2: "chat_outcome failing_host (length (calls (initial_state (example_args None))))
       = Inl ''quota exceeded''" by (simp add: failing_host_def)
  show ?thesis
    using failed_round_atomic [OF h1 h2, of 0] h1 h2 by simp
qed

subsection \<open>Fail fast\<close>

lemma fail_fast_loop:
  assumes "researchSteps s = []"
    and "cumulativeTokens s < researchBudget (modelContextWindow svc args)"
    and "int i + 1 < maxIterations args"
    and "chat_outcome host (length (calls s)) = Inl e1"
    and "chat_outcome host (Suc (length (calls s))) = Inl e2"
  shows "(\<exists>e s'. research_loop svc host args i s = Inl (e, s')
            \<and> code e = ''RESEARCH_ITERATIONS_FAILING''
            \<and> length (calls s') \<le> length (calls s) + 2)
    \<and> (i = 0 \<and> s = initial_state args \<longrightarrow>
          execute_run svc host args = Inl (iterations_failing (error_message e2))
          \<and> length (calls (loop_state (research_loop svc host args i s))) = 2
          \<and> execute svc host args
              = [\<lparr>tc_type = ''text'',
                  tc_text = ''Error: '' @ message (iterations_failing (error_message e2))\<rparr>])"
proof (cases "consecutiveFailures s = 0")
  case False
  then have cf: "1 \<le> consecutiveFailures s" by simp
  have ii: "int i < maxIterations args" using assms(3) by simp
  have "research_loop svc host args i s =
      Inl (iterations_failing (error_message e1),
           s\<lparr>report := report s @ iteration_heading args i,
             calls := calls s @ [research_request svc args i s],
             consecutiveFailures := consecutiveFailures s + 1\<rparr>)"
    by (subst research_loop.simps)
       (simp add: ii iteration_fail_throw [OF assms(2) assms(4) assms(1) cf])
  moreover have "s \<noteq> initial_state args" using False by (auto simp: initial_state_def)
  ultimately show ?thesis by (simp add: iterations_failing_def)
next
  case True
  define s1 where "s1 = s\<lparr>report := report s @ iteration_heading args i
                              @ failure_note i (error_message e1),
          calls := calls s @ [research_request svc args i s],
          consecutiveFailures := consecutiveFailures s + 1\<rparr>"
  have ii: "int i < maxIterations args" "int (Suc i) < maxIterations args"
    "1 + int i < maxIterations args"
    using assms(3) by (simp_all add: add.commute)
  have it1: "iteration svc host args i s = Next s1"
    unfolding s1_def using True by (intro iteration_fail_next assms) simp
  have it2: "iteration svc host args (Suc i) s1 =
     Throw (iterations_failing (error_message e2))
       (s1\<lparr>report := report s1 @ iteration_heading args (Suc i),
          calls := calls s1 @ [research_request svc args (Suc i) s1],
          consecutiveFailures := consecutiveFailures s1 + 1\<rparr>)"
    by (rule iteration_fail_throw) (simp_all add: s1_def assms)
  have loop: "research_loop svc host args i s =
      Inl (iterations_failing (error_message e2),
       (s1\<lparr>report := report s1 @ iteration_heading args (Suc i),
          calls := calls s1 @ [research_request svc args (Suc i) s1],
          consecutiveFailures := consecutiveFailures s1 + 1\<rparr>))"
    apply (subst research_loop.simps)
    apply (simp add: ii it1)
    apply (subst research_loop.simps)
    apply (simp add: ii it2)
    done
  have len: "length (calls s1) = length (calls s) + 1" by (simp add: s1_def)
  show ?thesis
    using loop len
    by (auto simp: iterations_failing_def execute_run_def execute_def createToolResult_def)
qed

text \<open>
  C2. With no step recorded so far, when the calls of two consecutive passes fail, the
  loop throws the error with code \<open>RESEARCH_ITERATIONS_FAILING\<close> after at most these
  two calls: no third call is made. In a run the whole operation then returns that error,
  rendered as \<open>Error:\<close> and its message; from the start of a run, after exactly two
  calls.
\<close>

theorem fail_fast_guard:
  assumes "researchSteps s = []"
    and "cumulativeTokens s < researchBudget (modelContextWindow svc args)"
    and "int i + 1 < maxIterations args"
    and "chat_outcome host (length (calls s)) = Inl e1"
    and "chat_outcome host (Suc (length (calls s))) = Inl e2"
  shows "(\<exists>e s'. research_loop svc host args i s = Inl (e, s')
            \<and> code e = ''RESEARCH_ITERATIONS_FAILING''
            \<and> length (calls s') \<le> length (calls s) + 2
            \<and> (reachable svc host args i s \<longrightarrow>
                 execute_run svc host args = Inl e
                 \<and> execute svc host args
                     = [\<lparr>tc_type = ''text'', tc_text = ''Error: '' @ message e\<rparr>]))
    \<and> (i = 0 \<and> s = initial_state args \<longrightarrow>
          execute_run svc host args = Inl (iterations_failing (error_message e2))
          \<and> length (calls (loop_state (research_loop svc host args i s))) = 2)"
proof -
  note L = fail_fast_loop [OF assms]
  from L obtain e s' where loop: "research_loop svc host args i s = Inl (e, s')"
    and c: "code e = ''RESEARCH_ITERATIONS_FAILING''"
    and n: "length (calls s') \<le> length (calls s) + 2"
    by blast
  have "reachable svc host args i s \<longrightarrow>
      execute_run svc host args = Inl e
      \<and> execute svc host args = [\<lparr>tc_type = ''text'', tc_text = ''Error: '' @ message e\<rparr>]"
  proof
    assume "reachable svc host args i s"
    then have "research_loop svc host args 0 (initial_state args) = Inl (e, s')"
      using loop by (simp add: reachable_loop)
    then show "execute_run svc host args = Inl e
      \<and> execute svc host args = [\<lparr>tc_type = ''text'', tc_text = ''Error: '' @ message e\<rparr>]"
      by (simp add: execute_run_def execute_def createToolResult_def)
  qed
  with loop c n have first: "\<exists>e s'. research_loop svc host args i s = Inl (e, s')
            \<and> code e = ''RESEARCH_ITERATIONS_FAILING''
            \<and> length (calls s') \<le> length (calls s) + 2
            \<and> (reachable svc host args i s \<longrightarrow>
                 execute_run svc host args = Inl e
                 \<and> execute svc host args
                     = [\<lparr>tc_type = ''text'', tc_text = ''Error: '' @ message e\<rparr>])"
    by blast
  from L have second: "i = 0 \<and> s = initial_state args \<longrightarrow>
          execute_run svc host args = Inl (iterations_failing (error_message e2))
          \<and> length (calls (loop_state (research_loop svc host args i s))) = 2"
    by blast
  show ?thesis using first second by (rule conjI)
qed

theorem fail_fast_guard_witness:
  "researchSteps (initial_state (example_args None)) = []
   \<and> cumulativeTokens (initial_state (example_args None))
       < researchBudget (modelContextWindow example_service (example_args None))
   \<and> int 0 + 1 < maxIterations (example_args None)
   \<and> chat_outcome failing_host (length (calls (initial_state (example_args None))))
       = Inl ''quota exceeded''
   \<and> chat_outcome failing_host (Suc (length (calls (initial_state (example_args None)))))
       = Inl ''quota exceeded''
   \<and> execute_run example_service failing_host (example_args None)
       = Inl (iterations_failing ''quota exceeded'')
   \<and> length (calls (loop_state (research_loop example_service failing_host (example_args None)
        0 (initial_state (example_args None))))) = 2
   \<and> reachable example_service failing_host (example_args None) 0
        (initial_state (example_args None))
   \<and> execute example_service failing_host (example_args None)
       = [\<lparr>tc_type = ''text'',
           tc_text = ''Error: '' @ message (iterations_failing ''quota exceeded'')\<rparr>]"
proof -
  have h1: "researchSteps (initial_state (example_args None)) = []" by simp
  have h2: "cumulativeTokens (initial_state (example_args None))
       < researchBudget (modelContextWindow example_service (example_args None))" by simp
  have h3: "int 0 + 1 < maxIterations (example_args None)" by simp
  have h4: "chat_outcome failing_host (length (calls (initial_state (example_args None))))
       = Inl ''quota exceeded''" by (simp add: failing_host_def)
  have h5: "chat_outcome failing_host (Suc (length (calls (initial_state (example_args None)))))
       = Inl ''quota exceeded''" by (simp add: failing_host_def)
  have r: "reachable example_service failing_host (example_args None) 0
        (initial_state (example_args None))"
    by (rule reachable.start)
  note G = fail_fast_guard [OF h1 h2 h3 h4 h5]
  from G have run: "execute_run example_service failing_host (example_args None)
       = Inl (iterations_failing ''quota exceeded'')"
    by (simp add: error_message_def)
  from G have n: "length (calls (loop_state (research_loop example_service failing_host
        (example_args None) 0 (initial_state (example_args None))))) = 2"
    by simp
  from G r obtain e where e: "execute_run example_service failing_host (example_args None)
       = Inl e"
    and t: "execute example_service failing_host (example_args None)
       = [\<lparr>tc_type = ''text'', tc_text = ''Error: '' @ message e\<rparr>]"
    by blast
  from e run have "e = iterations_failing ''quota exceeded''" by simp
  with t have x: "execute example_service failing_host (example_args None)
       = [\<lparr>tc_type = ''text'',
           tc_text = ''Error: '' @ message (iterations_failing ''quota exceeded'')\<rparr>]"
    by simp
  show ?thesis by (intro conjI h1 h2 h3 h4 h5 run n r x)
qed

subsection \<open>Failure if and only if no step succeeded\<close>



subsection \<open>Recency-biased context\<close>

lemma step_summary_eq:
  "step_summary i st =
     ''Previous finding '' @ show_nat (i + 1) @ '': '' @ take 1000 (response st)
     @ (if 1000 < length (response st) then ''...'' else []) @ ''\<newline>\<newline>''"
  by (simp add: step_summary_def Let_def min_def)

lemma smart_loop_suffix:
  "\<exists>j \<le> k.
     smart_loop steps M k ctx cur
       = concat (map (\<lambda>i. step_summary i (steps ! i)) [j..<k]) @ ctx
     \<and> (j < k \<longrightarrow>
          real (cur + length (concat (map (\<lambda>i. step_summary i (steps ! i)) [j..<k]))) \<le> M)
     \<and> (0 < j \<longrightarrow>
          real (cur + length (concat (map (\<lambda>i. step_summary i (steps ! i)) [j..<k]))
                + length (step_summary (j - 1) (steps ! (j - 1)))) > M)"
proof (induction k arbitrary: ctx cur)
  case 0
  show ?case by simp
next
  case (Suc k)
  let ?summ = "\<lambda>i. step_summary i (steps ! i)"
  show ?case
  proof (cases "real (cur + length (?summ k)) > M")
    case True
    then show ?thesis by (intro exI [of _ "Suc k"]) simp
  next
    case False
    from Suc.IH [of "?summ k @ ctx" "cur + length (?summ k)"]
    obtain j where j: "j \<le> k"
      and res: "smart_loop steps M k (?summ k @ ctx) (cur + length (?summ k))
                 = concat (map ?summ [j..<k]) @ ?summ k @ ctx"
      and le: "j < k \<longrightarrow>
          real (cur + length (?summ k) + length (concat (map ?summ [j..<k]))) \<le> M"
      and gt: "0 < j \<longrightarrow>
          real (cur + length (?summ k) + length (concat (map ?summ [j..<k]))
                + length (?summ (j - 1))) > M"
      by auto
    have upt: "[j..<Suc k] = [j..<k] @ [k]" using j by simp
    have len: "length (concat (map ?summ [j..<Suc k]))
        = length (concat (map ?summ [j..<k])) + length (?summ k)"
      unfolding upt by simp
    have r: "smart_loop steps M (Suc k) ctx cur = concat (map ?summ [j..<Suc k]) @ ctx"
      using False res unfolding upt by (simp add: Let_def)
    have b1: "j < Suc k \<longrightarrow> real (cur + length (concat (map ?summ [j..<Suc k]))) \<le> M"
    proof (cases "j < k")
      case True
      with le show ?thesis unfolding len by (simp add: algebra_simps)
    next
      case nlt: False
      with j have "j = k" by simp
      with False show ?thesis by simp
    qed
    have b2: "0 < j \<longrightarrow>
          real (cur + length (concat (map ?summ [j..<Suc k])) + length (?summ (j - 1))) > M"
      using gt unfolding len by (simp add: algebra_simps)
    from j have "j \<le> Suc k" by simp
    with r b1 b2 show ?thesis by blast
  qed
qed

text \<open>
  C5. The context is the concatenation of the whole summaries of the steps from some
  index \<open>j\<close> to the most recent one: the walk goes from the most recent step to the
  oldest and stops at the first summary that would take the running character total
  over \<open>maxTokens * 4 * 0.8\<close>, so what is included stays within that bound, the step
  before \<open>j\<close> would exceed it, and no older step appears, in part or whole. A summary is
  the prefix \<open>Previous finding N:\<close>, at most the first 1000 characters of the response,
  an ellipsis when the response is longer, and a blank line. The context is a function
  of the steps and the budget alone.
\<close>

theorem smart_context_recency:
  "(\<exists>j \<le> length steps.
      buildSmartContext steps maxTokens
        = concat (map (\<lambda>i. step_summary i (steps ! i)) [j..<length steps])
      \<and> (j < length steps \<longrightarrow>
           real (length (buildSmartContext steps maxTokens)) \<le> real_of_int maxTokens * 4 * 0.8)
      \<and> (0 < j \<longrightarrow>
           real (length (buildSmartContext steps maxTokens)
                 + length (step_summary (j - 1) (steps ! (j - 1))))
             > real_of_int maxTokens * 4 * 0.8))
   \<and> (\<forall>i st. step_summary i st =
         ''Previous finding '' @ show_nat (i + 1) @ '': '' @ take 1000 (response st)
         @ (if 1000 < length (response st) then ''...'' else []) @ ''\<newline>\<newline>'')"
proof (cases "steps = []")
  case True
  then show ?thesis using step_summary_eq by (simp add: buildSmartContext_def)
next
  case False
  let ?summ = "\<lambda>i. step_summary i (steps ! i)"
  let ?M = "real_of_int maxTokens * 4 * 0.8"
  from smart_loop_suffix [of "length steps" steps ?M "[]" 0]
  obtain j where j: "j \<le> length steps"
    and res: "smart_loop steps ?M (length steps) [] 0 = concat (map ?summ [j..<length steps])"
    and le: "j < length steps \<longrightarrow>
          real (length (concat (map ?summ [j..<length steps]))) \<le> ?M"
    and gt: "0 < j \<longrightarrow>
          real (length (concat (map ?summ [j..<length steps]))
                + length (?summ (j - 1))) > ?M"
    by auto
  have eq: "buildSmartContext steps maxTokens = concat (map ?summ [j..<length steps])"
    using False res by (simp add: buildSmartContext_def)
  have "\<exists>j \<le> length steps.
      buildSmartContext steps maxTokens = concat (map ?summ [j..<length steps])
      \<and> (j < length steps \<longrightarrow> real (length (buildSmartContext steps maxTokens)) \<le> ?M)
      \<and> (0 < j \<longrightarrow>
           real (length (buildSmartContext steps maxTokens) + length (?summ (j - 1))) > ?M)"
    using j le gt unfolding eq by blast
  then show ?thesis using step_summary_eq by blast
qed

theorem smart_context_recency_witness:
  "buildSmartContext two_steps 10 = ''Previous finding 2: xy\<newline>\<newline>''
   \<and> real (length (buildSmartContext two_steps 10)) \<le> real_of_int 10 * 4 * 0.8
   \<and> real (length (buildSmartContext two_steps 10) + length (step_summary 0 (two_steps ! 0)))
       > real_of_int 10 * 4 * 0.8
   \<and> buildSmartContext two_steps 20
       = ''Previous finding 1: abcdefghij\<newline>\<newline>Previous finding 2: xy\<newline>\<newline>''
   \<and> buildSmartContext two_steps 0 = []"
  using smart_context_recency [of two_steps 10] smart_context_recency [of two_steps 20]
  by (simp add: buildSmartContext_def two_steps_def step_summary_def)

subsection \<open>Synthesis context\<close>

lemma map_index_length [simp]: "length (map_index f i xs) = length xs"
  by (induction xs arbitrary: i) auto

lemma map_index_nth: "j < length xs \<Longrightarrow> map_index f i xs ! j = f (i + j) (xs ! j)"
proof (induction xs arbitrary: i j)
  case Nil
  then show ?case by simp
next
  case (Cons x xs)
  then show ?case by (cases j) auto
qed

lemma maxCharsPerStep_eq: "maxCharsPerStep steps maxTokens = maxTokens * 4 div int (length steps)"
proof -
  have "real (length steps) = real_of_int (int (length steps))" by simp
  then show ?thesis unfolding maxCharsPerStep_def by (simp only: floor_divide_of_int_eq)
qed

lemma after_loop_synthesis_call:
  assumes "1 < length (researchSteps s)"
  shows "\<exists>s'. after_loop svc host args s = Inr s'
           \<and> calls s' = calls s @ [synthesis_request svc args s]"
proof -
  from assms have "researchSteps s \<noteq> []" by auto
  with assms show ?thesis
    by (auto simp: after_loop_def synthesize_def Let_def split: sum.splits)
qed

lemma loop_break:
  "int i < maxIterations args \<Longrightarrow>
   researchBudget (modelContextWindow svc args) \<le> cumulativeTokens s \<Longrightarrow>
   research_loop svc host args i s = Inr (s\<lparr>report := report s @ budget_note i\<rparr>)"
  by (subst research_loop.simps) (simp add: iteration_break)

lemma small_window [simp]: "modelContextWindow small_service (example_args n) = 16000"
  by (simp add: modelContextWindow_def getModelContextWindow_def model_name_def
      small_service_def example_args_def)

lemma small_budget [simp]: "researchBudget 16000 = 12000"
  by (simp add: researchBudget_eq)

lemma add_tokens_heavy [simp]: "add_tokens t heavy_response = t + 9000"
  by (simp add: add_tokens_def heavy_response_def)

lemma heavy_loop:
  "research_loop small_service heavy_host (example_args None) 0
     (initial_state (example_args None)) = Inr heavy_state
   \<and> map response (researchSteps heavy_state) = [''abcdefghij'', ''abcdefghij'']
   \<and> length (calls heavy_state) = 2 \<and> cumulativeTokens heavy_state = 18000"
proof -
  have out: "\<And>n. chat_outcome heavy_host n = Inr heavy_response"
    by (simp add: heavy_host_def)
  have resp: "\<And>p. response (research_step p heavy_response) = ''abcdefghij''"
    by (simp add: research_step_def heavy_response_def)
  show ?thesis
    unfolding heavy_state_def by (simp add: loop_step_ok loop_break out resp)
qed

text \<open>
  C6. For a non-empty list of steps the synthesis context is the join of one piece per
  step, in order, none dropped; the piece of a step is its heading and its response cut
  to \<open>floor(maxTokens * 4 / stepCount)\<close> characters (with an ellipsis when cut). A
  negative length keeps no character: the piece is the heading and the ellipsis. The
  budget handed in is \<open>min(synthesisReserve, contextWindow - cumulativeTokens - 10000)\<close>,
  and with two steps or more the synthesis call is made whatever its sign.
\<close>

theorem synthesis_context_every_step:
  assumes "steps \<noteq> []"
  shows "maxCharsPerStep steps maxTokens = maxTokens * 4 div int (length steps)
    \<and> (\<exists>pieces. buildSynthesisContext steps maxTokens = join ''\<newline>\<newline>'' pieces
          \<and> length pieces = length steps
          \<and> (\<forall>i < length steps.
                pieces ! i =
                  ''Research Iteration '' @ show_nat (i + 1) @ '':\<newline>''
                  @ (if int (length (response (steps ! i))) > maxCharsPerStep steps maxTokens
                     then take (nat (maxCharsPerStep steps maxTokens)) (response (steps ! i))
                          @ ''...''
                     else response (steps ! i)))
          \<and> (maxTokens < 0 \<longrightarrow>
               (\<forall>i < length steps.
                  pieces ! i = ''Research Iteration '' @ show_nat (i + 1) @ '':\<newline>...'')))
    \<and> availableForSynthesis svc args s
        = min (synthesisReserve (modelContextWindow svc args))
              (modelContextWindow svc args - cumulativeTokens s - 10000)
    \<and> synthesisReserve (modelContextWindow svc args) = modelContextWindow svc args div 5
    \<and> req_message (synthesis_request svc args s)
        = synthesisPrompt (research_question args)
            (buildSynthesisContext (researchSteps s) (availableForSynthesis svc args s))
    \<and> (1 < length (researchSteps s) \<longrightarrow>
         (\<exists>s'. after_loop svc host args s = Inr s'
               \<and> calls s' = calls s @ [synthesis_request svc args s]))"
proof -
  let ?m = "maxCharsPerStep steps maxTokens"
  let ?pieces = "map_index (synthesis_piece ?m) 0 steps"
  have p1: "buildSynthesisContext steps maxTokens = join ''\<newline>\<newline>'' ?pieces"
    by (simp add: buildSynthesisContext_def)
  have p2: "length ?pieces = length steps" by simp
  have p3: "\<forall>i < length steps.
                ?pieces ! i =
                  ''Research Iteration '' @ show_nat (i + 1) @ '':\<newline>''
                  @ (if int (length (response (steps ! i))) > ?m
                     then take (nat ?m) (response (steps ! i)) @ ''...''
                     else response (steps ! i))"
    by (simp add: map_index_nth synthesis_piece_def)
  have p4: "maxTokens < 0 \<longrightarrow>
               (\<forall>i < length steps.
                  ?pieces ! i = ''Research Iteration '' @ show_nat (i + 1) @ '':\<newline>...'')"
  proof (intro impI allI)
    fix i assume neg: "maxTokens < 0" and i: "i < length steps"
    from assms have "0 < int (length steps)" by simp
    with neg have "maxTokens * 4 div int (length steps) < 0"
      by (simp add: pos_imp_zdiv_neg_iff)
    then have "?m < 0" by (simp add: maxCharsPerStep_eq)
    with i show "?pieces ! i = ''Research Iteration '' @ show_nat (i + 1) @ '':\<newline>...''"
      by (simp add: map_index_nth synthesis_piece_def)
  qed
  have q: "\<exists>pieces. buildSynthesisContext steps maxTokens = join ''\<newline>\<newline>'' pieces
          \<and> length pieces = length steps
          \<and> (\<forall>i < length steps.
                pieces ! i =
                  ''Research Iteration '' @ show_nat (i + 1) @ '':\<newline>''
                  @ (if int (length (response (steps ! i))) > ?m
                     then take (nat ?m) (response (steps ! i)) @ ''...''
                     else response (steps ! i)))
          \<and> (maxTokens < 0 \<longrightarrow>
               (\<forall>i < length steps.
                  pieces ! i = ''Research Iteration '' @ show_nat (i + 1) @ '':\<newline>...''))"
    using p1 p2 p3 p4 by (intro exI [of _ ?pieces] conjI)
  have r: "availableForSynthesis svc args s
        = min (synthesisReserve (modelContextWindow svc args))
              (modelContextWindow svc args - cumulativeTokens s - 10000)"
    by (simp add: availableForSynthesis_def)
  have t: "req_message (synthesis_request svc args s)
        = synthesisPrompt (research_question args)
            (buildSynthesisContext (researchSteps s) (availableForSynthesis svc args s))"
    by (simp add: synthesis_request_def)
  have u: "1 < length (researchSteps s) \<longrightarrow>
         (\<exists>s'. after_loop svc host args s = Inr s'
               \<and> calls s' = calls s @ [synthesis_request svc args s])"
    using after_loop_synthesis_call by blast
  show ?thesis by (intro conjI maxCharsPerStep_eq q r synthesisReserve_eq t u)
qed

theorem synthesis_context_every_step_witness:
  "two_steps \<noteq> []
   \<and> maxCharsPerStep two_steps 2 = 4
   \<and> buildSynthesisContext two_steps 2
       = ''Research Iteration 1:\<newline>abcd...\<newline>\<newline>Research Iteration 2:\<newline>xy''
   \<and> buildSynthesisContext two_steps (- 5)
       = ''Research Iteration 1:\<newline>...\<newline>\<newline>Research Iteration 2:\<newline>...''
   \<and> 1 < length (researchSteps heavy_state)
   \<and> availableForSynthesis small_service (example_args None) heavy_state = - 12000
   \<and> buildSynthesisContext (researchSteps heavy_state) (- 12000)
       = ''Research Iteration 1:\<newline>...\<newline>\<newline>Research Iteration 2:\<newline>...''
   \<and> (\<exists>s'. after_loop small_service heavy_host (example_args None) heavy_state = Inr s'
           \<and> calls s' = calls heavy_state
                @ [synthesis_request small_service (example_args None) heavy_state])"
proof -
  have h: "two_steps \<noteq> []" by (simp add: two_steps_def)
  note A = synthesis_context_every_step [OF h, of 2 small_service "example_args None"
      heavy_state heavy_host]
  from A have w2: "maxCharsPerStep two_steps 2 = 4" by (simp add: two_steps_def)
  have w3: "buildSynthesisContext two_steps 2
       = ''Research Iteration 1:\<newline>abcd...\<newline>\<newline>Research Iteration 2:\<newline>xy''"
    by (simp add: buildSynthesisContext_def maxCharsPerStep_eq synthesis_piece_def two_steps_def)
  have m5: "maxCharsPerStep two_steps (- 5) = - 10"
    by (simp add: maxCharsPerStep_eq two_steps_def)
  have w4: "buildSynthesisContext two_steps (- 5)
       = ''Research Iteration 1:\<newline>...\<newline>\<newline>Research Iteration 2:\<newline>...''"
    by (simp add: buildSynthesisContext_def maxCharsPerStep_eq synthesis_piece_def two_steps_def)
  have "length (map response (researchSteps heavy_state)) = 2"
    using heavy_loop by simp
  then have w5: "1 < length (researchSteps heavy_state)" by simp
  from A have w6: "availableForSynthesis small_service (example_args None) heavy_state = - 12000"
    using heavy_loop by (simp add: synthesisReserve_eq)
  from A w5 have w7: "\<exists>s'. after_loop small_service heavy_host (example_args None) heavy_state
           = Inr s'
           \<and> calls s' = calls heavy_state
                @ [synthesis_request small_service (example_args None) heavy_state]"
    by blast
  have "length (map response (researchSteps heavy_state)) = 2"
    using heavy_loop by simp
  then have len: "length (researchSteps heavy_state) = 2" by simp
  then have h': "researchSteps heavy_state \<noteq> []" by auto
  note B = synthesis_context_every_step [OF h', of "- 12000" small_service
      "example_args None" heavy_state heavy_host, THEN conjunct2, THEN conjunct1]
  from B obtain pieces where
    P1: "buildSynthesisContext (researchSteps heavy_state) (- 12000)
        = join ''\<newline>\<newline>'' pieces"
    and P2: "length pieces = length (researchSteps heavy_state)"
    and P4: "(- 12000 :: int) < 0 \<longrightarrow>
      (\<forall>i < length (researchSteps heavy_state).
         pieces ! i = ''Research Iteration '' @ show_nat (i + 1) @ '':\<newline>...'')"
    by blast
  from P2 len obtain a b where ab: "pieces = [a, b]"
    by (auto simp: length_Suc_conv numeral_2_eq_2)
  from P4 len have p0: "pieces ! 0 = ''Research Iteration '' @ show_nat (0 + 1) @ '':\<newline>...''"
    and p1: "pieces ! 1 = ''Research Iteration '' @ show_nat (1 + 1) @ '':\<newline>...''"
    by simp_all
  from p0 ab have a: "a = ''Research Iteration 1:\<newline>...''" by simp
  from p1 ab have b: "b = ''Research Iteration 2:\<newline>...''" by simp
  have w8: "buildSynthesisContext (researchSteps heavy_state) (- 12000)
       = ''Research Iteration 1:\<newline>...\<newline>\<newline>Research Iteration 2:\<newline>...''"
    unfolding P1 ab a b by simp
  show ?thesis by (intro conjI h w2 w3 w4 w5 w6 w8 w7)
qed

subsection \<open>Grounded citations\<close>

lemma cite_index_step:
  "cite_index chunks (map (uri_at chunks) used, used) i =
     (map (uri_at chunks) (if citable chunks i then set_add used i else used),
      if citable chunks i then set_add used i else used)"
  by (auto simp: cite_index_def citable_def uri_at_def set_add_def split: option.splits)

lemma cite_indices_fold:
  "foldl (cite_index chunks) (map (uri_at chunks) used, used) is =
     (map (uri_at chunks) (foldl set_add used (filter (citable chunks) is)),
      foldl set_add used (filter (citable chunks) is))"
proof (induction "is" arbitrary: used)
  case Nil
  show ?case by simp
next
  case (Cons i "is")
  show ?case
  proof (cases "citable chunks i")
    case True
    then show ?thesis
      using Cons.IH [of "set_add used i"] by (simp add: cite_index_step)
  next
    case False
    then show ?thesis using Cons.IH [of used] by (simp add: cite_index_step)
  qed
qed

lemma cite_supports_fold:
  "foldl (cite_support chunks) (map (uri_at chunks) used, used) supports =
     (map (uri_at chunks)
        (foldl set_add used (filter (citable chunks) (concat (map indices_of supports)))),
      foldl set_add used (filter (citable chunks) (concat (map indices_of supports))))"
proof (induction supports arbitrary: used)
  case Nil
  show ?case by simp
next
  case (Cons sp supports)
  have "cite_support chunks (map (uri_at chunks) used, used) sp =
     (map (uri_at chunks) (foldl set_add used (filter (citable chunks) (indices_of sp))),
      foldl set_add used (filter (citable chunks) (indices_of sp)))"
    by (simp add: cite_support_def cite_indices_fold)
  then show ?case
    using Cons.IH [of "foldl set_add used (filter (citable chunks) (indices_of sp))"]
    by simp
qed

lemma citationLinks_eq:
  "citationLinks supports chunks = map (uri_at chunks) (cited_indices supports chunks)"
  using cite_supports_fold [of chunks "[]" supports]
  by (simp add: citationLinks_def cited_indices_def new_Set_def)

text \<open>
  C7, as stated, lists deduplicated citation URLs. The source deduplicates the chunk
  indices, not the URLs: two chunks with the same URI are both listed.
\<close>

theorem citations_repeat_url:
  "citationLinks (supports_of twin_chunks) (chunks_of twin_chunks)
     = [''http://a.com'', ''http://a.com'']
   \<and> \<not> distinct (citationLinks (supports_of twin_chunks) (chunks_of twin_chunks))
   \<and> addInlineCitations ''t'' twin_chunks
       = ''t\<newline>\<newline>Sources: (http://a.com) (http://a.com)\<newline>\<newline>Search queries used: a query''"
  by (simp add: addInlineCitations_def citationLinks_def cite_support_def cite_index_def
      supports_of_def chunks_of_def queries_of_def indices_of_def twin_chunks_def
      sources_line_def queries_line_def searchInfo_def)

text \<open>
  With chunks but no supports (or supports but no chunks) the text comes back unchanged
  even when search queries were recorded.
\<close>

lemma mixed_metadata_drops_queries:
  "queries_of chunks_only = [''a query''] \<and> addInlineCitations ''t'' chunks_only = ''t''"
  by (simp add: addInlineCitations_def supports_of_def chunks_of_def queries_of_def
      chunks_only_def)

text \<open>
  C7, amended. With supports and chunks both present, the result is the text, a
  \<open>Sources:\<close> line when a citation was found, and a \<open>Search queries used:\<close> line when
  queries were recorded; the citations are the URIs of the chunks some support refers
  to, each chunk index once, in the order of first reference, an index out of range or
  a chunk without a URI being skipped. With neither supports nor chunks, the result is
  the text and the queries line when queries were recorded. With supports or chunks
  missing and no queries recorded, the text comes back unchanged.
\<close>

theorem citations_by_chunk_index:
  "(supports_of gm \<noteq> [] \<and> chunks_of gm \<noteq> [] \<longrightarrow>
      addInlineCitations txt gm =
        txt @ sources_line (citationLinks (supports_of gm) (chunks_of gm))
            @ queries_line (queries_of gm))
   \<and> citationLinks supports chunks = map (uri_at chunks) (cited_indices supports chunks)
   \<and> distinct (cited_indices supports chunks)
   \<and> set (cited_indices supports chunks) =
       {i. (\<exists>sp \<in> set supports. i \<in> set (indices_of sp)) \<and> i < length chunks
           \<and> (\<exists>uri. web_uri (chunks ! i) = Some uri \<and> uri \<noteq> [])}
   \<and> (supports_of gm = [] \<and> chunks_of gm = [] \<longrightarrow>
        addInlineCitations txt gm = txt @ queries_line (queries_of gm))
   \<and> ((supports_of gm = [] \<or> chunks_of gm = []) \<and> queries_of gm = [] \<longrightarrow>
        addInlineCitations txt gm = txt)"
proof -
  have s: "set (cited_indices supports chunks) =
       {i. (\<exists>sp \<in> set supports. i \<in> set (indices_of sp)) \<and> i < length chunks
           \<and> (\<exists>uri. web_uri (chunks ! i) = Some uri \<and> uri \<noteq> [])}"
    by (auto simp: cited_indices_def citable_def split: option.splits)
  have d: "distinct (cited_indices supports chunks)" by (simp add: cited_indices_def)
  show ?thesis
    using s d citationLinks_eq [of supports chunks]
    by (simp add: addInlineCitations_def Let_def queries_line_def)
qed

theorem citations_by_chunk_index_witness:
  "supports_of twin_chunks \<noteq> [] \<and> chunks_of twin_chunks \<noteq> []
   \<and> cited_indices (supports_of twin_chunks) (chunks_of twin_chunks) = [0, 1]
   \<and> addInlineCitations ''t'' twin_chunks
       = ''t\<newline>\<newline>Sources: (http://a.com) (http://a.com)\<newline>\<newline>Search queries used: a query''
   \<and> supports_of queries_only = [] \<and> chunks_of queries_only = []
   \<and> addInlineCitations ''t'' queries_only
       = ''t\<newline>\<newline>Search queries used: a query, another''
   \<and> supports_of bare_metadata = [] \<and> queries_of bare_metadata = []
   \<and> addInlineCitations ''t'' bare_metadata = ''t''"
proof -
  note A = citations_by_chunk_index [of twin_chunks "''t''" "supports_of twin_chunks"
      "chunks_of twin_chunks"]
  note B = citations_by_chunk_index [of queries_only "''t''" "[]" "[]"]
  note C = citations_by_chunk_index [of bare_metadata "''t''" "[]" "[]"]
  have a1: "supports_of twin_chunks \<noteq> []" "chunks_of twin_chunks \<noteq> []"
    by (simp_all add: supports_of_def chunks_of_def twin_chunks_def)
  have a2: "cited_indices (supports_of twin_chunks) (chunks_of twin_chunks) = [0, 1]"
    by (simp add: cited_indices_def new_Set_def set_add_def citable_def supports_of_def
        chunks_of_def indices_of_def twin_chunks_def)
  have q: "queries_of twin_chunks = [''a query'']"
    by (simp add: queries_of_def twin_chunks_def)
  from A a1 have "addInlineCitations ''t'' twin_chunks =
        ''t'' @ sources_line (map (uri_at (chunks_of twin_chunks))
                   (cited_indices (supports_of twin_chunks) (chunks_of twin_chunks)))
            @ queries_line (queries_of twin_chunks)"
    by simp
  then have a3: "addInlineCitations ''t'' twin_chunks
       = ''t\<newline>\<newline>Sources: (http://a.com) (http://a.com)\<newline>\<newline>Search queries used: a query''"
    unfolding a2 q
    by (simp add: uri_at_def chunks_of_def twin_chunks_def sources_line_def queries_line_def
        searchInfo_def)
  have b1: "supports_of queries_only = []" "chunks_of queries_only = []"
    by (simp_all add: supports_of_def chunks_of_def queries_only_def)
  from B b1 have b2: "addInlineCitations ''t'' queries_only
       = ''t\<newline>\<newline>Search queries used: a query, another''"
    by (simp add: queries_of_def queries_only_def queries_line_def searchInfo_def)
  have c1: "supports_of bare_metadata = []" "queries_of bare_metadata = []"
    by (simp_all add: supports_of_def queries_of_def bare_metadata_def)
  from C c1 have c2: "addInlineCitations ''t'' bare_metadata = ''t''" by simp
  show ?thesis by (intro conjI a1 a2 a3 b1 b2 c1 c2)
qed

subsection \<open>Source extraction\<close>

lemma url_char_simps [simp]:
  "url_char CHR ''h''" "url_char CHR ''t''" "url_char CHR ''p''" "url_char CHR ''s''"
  "url_char CHR '':''" "url_char CHR ''/''" "\<not> url_char CHR '' ''" "\<not> url_char CHR '')''"
  by (simp_all add: url_char_def is_space_def)

lemma new_Set_snoc: "new_Set (xs @ [x]) = (if x \<in> set xs then new_Set xs else new_Set xs @ [x])"
  by (simp add: new_Set_def set_add_def foldl_set_add_set)

lemma new_Set_first_seen: "new_Set xs = rev (remdups (rev xs))"
  by (induction xs rule: rev_induct) (simp_all add: new_Set_snoc, simp add: new_Set_def)

lemma foldl_set_add_fresh: "distinct (seen @ xs) \<Longrightarrow> foldl set_add seen xs = seen @ xs"
  by (induction xs arbitrary: seen) (auto simp: set_add_def)

lemma new_Set_distinct_id: "distinct xs \<Longrightarrow> new_Set xs = xs"
  using foldl_set_add_fresh [of "[]" xs] by (simp add: new_Set_def)

lemma foldl_push_clean:
  "foldl push_clean acc ms = acc @ filter (\<lambda>u. 10 < length u) (map strip_trailing ms)"
  by (induction ms arbitrary: acc) (simp_all add: push_clean_def Let_def)

lemma extractSources_eq:
  "extractSources t = new_Set (filter (\<lambda>u. 10 < length u) (map strip_trailing (url_matches t)))"
  by (simp add: extractSources_def foldl_push_clean)

lemma strip_trailing_decomp:
  "\<exists>p. m = strip_trailing m @ p \<and> (\<forall>c \<in> set p. is_trail_punct c)"
proof -
  have "rev m = takeWhile is_trail_punct (rev m) @ dropWhile is_trail_punct (rev m)" by simp
  then have "m = rev (dropWhile is_trail_punct (rev m)) @ rev (takeWhile is_trail_punct (rev m))"
    by (metis rev_append rev_rev_ident)
  moreover have "\<forall>c \<in> set (rev (takeWhile is_trail_punct (rev m))). is_trail_punct c"
    by (auto dest: set_takeWhileD)
  ultimately show ?thesis unfolding strip_trailing_def by blast
qed

lemma strip_trailing_last:
  "strip_trailing m \<noteq> [] \<Longrightarrow> \<not> is_trail_punct (last (strip_trailing m))"
  unfolding strip_trailing_def
  by (metis hd_dropWhile last_rev rev_is_Nil_conv)

lemma strip_trailing_id: "u \<noteq> [] \<Longrightarrow> \<not> is_trail_punct (last u) \<Longrightarrow> strip_trailing u = u"
  unfolding strip_trailing_def
  by (cases u rule: rev_cases) simp_all

lemma url_match_at_shape:
  assumes "url_match_at s = Some (m, rest)"
  shows "\<exists>body. body \<noteq> [] \<and> (\<forall>c \<in> set body. url_char c)
           \<and> (m = ''http://'' @ body \<or> m = ''https://'' @ body)"
  using assms
  by (auto simp: url_match_at_def split: if_splits dest: set_takeWhileD)

lemma url_matches_shape:
  "m \<in> set (url_matches t) \<Longrightarrow>
   \<exists>body. body \<noteq> [] \<and> (\<forall>c \<in> set body. url_char c)
           \<and> (m = ''http://'' @ body \<or> m = ''https://'' @ body)"
proof (induction t arbitrary: m rule: url_matches.induct)
  case 1
  then show ?case by simp
next
  case (2 c cs)
  show ?case
  proof (cases "url_match_at (c # cs)")
    case None
    with 2 show ?thesis by simp
  next
    case (Some p)
    obtain m' rest where p: "p = (m', rest)" by (cases p)
    from "2.prems" Some p have "m = m' \<or> m \<in> set (url_matches rest)" by simp
    then show ?thesis
    proof
      assume "m = m'"
      with Some p url_match_at_shape show ?thesis by blast
    next
      assume "m \<in> set (url_matches rest)"
      with "2.IH"(2) [OF Some p [symmetric]] show ?thesis by blast
    qed
  qed
qed

lemma prefix_of_append_short:
  "prefix xs (ys @ zs) \<Longrightarrow> length xs \<le> length ys \<Longrightarrow> prefix xs ys"
  by (auto simp: prefix_append)

lemma extracted_clean:
  assumes "u \<in> set (extractSources t)"
  shows "clean_url u"
proof -
  from assms obtain m where m: "m \<in> set (url_matches t)" and u: "u = strip_trailing m"
    and len: "10 < length u"
    by (auto simp: extractSources_eq)
  from url_matches_shape [OF m] obtain body where body: "body \<noteq> []"
    "\<forall>c \<in> set body. url_char c" "m = ''http://'' @ body \<or> m = ''https://'' @ body"
    by blast
  from strip_trailing_decomp [of m] u obtain p where p: "m = u @ p" by blast
  from body(2,3) have allm: "\<forall>c \<in> set m. url_char c" by auto
  with p have allu: "\<forall>c \<in> set u. url_char c" by (metis Un_iff set_append)
  from body(3) have "prefix ''http://'' m \<or> prefix ''https://'' m" by auto
  with p len have pre: "prefix ''http://'' u \<or> prefix ''https://'' u"
    by (auto intro: prefix_of_append_short)
  from len have "u \<noteq> []" by auto
  with u have "\<not> is_trail_punct (last u)" using strip_trailing_last by blast
  with allu pre len show ?thesis by (simp add: clean_url_def)
qed

lemma takeWhile_until:
  "\<forall>c \<in> set b. P c \<Longrightarrow> rest = [] \<or> \<not> P (hd rest) \<Longrightarrow>
   takeWhile P (b @ rest) = b \<and> dropWhile P (b @ rest) = rest"
  by (cases rest) (auto simp: takeWhile_append2 dropWhile_append2)

lemma url_match_at_clean:
  assumes "clean_url u" and "rest = [] \<or> \<not> url_char (hd rest)"
  shows "url_match_at (u @ rest) = Some (u, rest)"
proof (cases "prefix ''https://'' u")
  case True
  then obtain b where b: "u = ''https://'' @ b" by (auto simp: prefix_def)
  with assms(1) have "b \<noteq> []" "\<forall>c \<in> set b. url_char c" by (auto simp: clean_url_def)
  with takeWhile_until [of b url_char rest] assms(2)
  have "takeWhile url_char (b @ rest) = b" "dropWhile url_char (b @ rest) = rest" by auto
  with b \<open>b \<noteq> []\<close> show ?thesis by (simp add: url_match_at_def)
next
  case False
  with assms(1) have "prefix ''http://'' u" by (simp add: clean_url_def)
  then obtain b where b: "u = ''http://'' @ b" by (auto simp: prefix_def)
  with assms(1) have "b \<noteq> []" "\<forall>c \<in> set b. url_char c" by (auto simp: clean_url_def)
  with takeWhile_until [of b url_char rest] assms(2)
  have tw: "takeWhile url_char (b @ rest) = b" "dropWhile url_char (b @ rest) = rest" by auto
  from assms(1) have "length ''https://'' \<le> length u" by (simp add: clean_url_def)
  with False have "\<not> prefix ''https://'' (u @ rest)"
    using prefix_of_append_short by blast
  with b tw \<open>b \<noteq> []\<close> show ?thesis by (simp add: url_match_at_def)
qed

lemma url_match_at_space: "url_match_at (CHR '' '' # rest) = None"
  by (simp add: url_match_at_def)

lemma url_matches_clean_space:
  assumes "clean_url u"
  shows "url_matches (u @ CHR '' '' # rest) = u # url_matches rest"
proof -
  from assms obtain c cs where u: "u = c # cs" by (cases u) (auto simp: clean_url_def)
  have "url_match_at (u @ CHR '' '' # rest) = Some (u, CHR '' '' # rest)"
    using assms by (intro url_match_at_clean) simp_all
  then have "url_matches (u @ CHR '' '' # rest) = u # url_matches (CHR '' '' # rest)"
    unfolding u by simp
  then show ?thesis by (simp add: url_match_at_space)
qed

lemma url_matches_clean_single:
  assumes "clean_url u"
  shows "url_matches u = [u]"
proof -
  from assms obtain c cs where u: "u = c # cs" by (cases u) (auto simp: clean_url_def)
  have "url_match_at (u @ []) = Some (u, [])"
    using assms by (intro url_match_at_clean) simp_all
  then show ?thesis unfolding u by simp
qed

lemma url_matches_join:
  "\<forall>u \<in> set us. clean_url u \<Longrightarrow> url_matches (join '' '' us) = us"
proof (induction us)
  case Nil
  show ?case by simp
next
  case (Cons u us)
  show ?case
  proof (cases us)
    case Nil
    with Cons.prems show ?thesis by (simp add: url_matches_clean_single)
  next
    case (Cons v vs)
    from Cons.prems have "clean_url u" by simp
    from url_matches_clean_space [OF this, of "join '' '' (v # vs)"] Cons.IH Cons.prems Cons
    show ?thesis by simp
  qed
qed

lemma clean_fixed:
  assumes "\<forall>u \<in> set us. clean_url u"
  shows "filter (\<lambda>u. 10 < length u) (map strip_trailing us) = us"
proof -
  have "\<And>u. u \<in> set us \<Longrightarrow> strip_trailing u = u"
    using assms by (intro strip_trailing_id) (auto simp: clean_url_def)
  then have "map strip_trailing us = us" by (simp add: map_idI)
  moreover have "filter (\<lambda>u. 10 < length u) us = us"
    using assms by (simp add: clean_url_def)
  ultimately show ?thesis by simp
qed

lemma extractSources_idempotent:
  "extractSources (join '' '' (extractSources t)) = extractSources t"
proof -
  have c: "\<forall>u \<in> set (extractSources t). clean_url u" using extracted_clean by blast
  have d: "distinct (extractSources t)" by (simp add: extractSources_eq)
  have "extractSources (join '' '' (extractSources t))
      = new_Set (filter (\<lambda>u. 10 < length u) (map strip_trailing (extractSources t)))"
    by (simp only: extractSources_eq [of "join '' '' (extractSources t)"] url_matches_join [OF c])
  also have "\<dots> = new_Set (extractSources t)" by (simp only: clean_fixed [OF c])
  also have "\<dots> = extractSources t" using d by (rule new_Set_distinct_id)
  finally show ?thesis .
qed

lemma slash_variants:
  "extractSources ''http://a.com http://a.com/'' = [''http://a.com'', ''http://a.com/'']"
proof -
  have m: "url_matches ''http://a.com http://a.com/'' = [''http://a.com'', ''http://a.com/'']"
    by (simp add: url_match_at_def url_char_def is_space_def)
  show ?thesis
    unfolding extractSources_def m
    by (simp add: push_clean_def strip_trailing_def is_trail_punct_def new_Set_def set_add_def)
qed

text \<open>
  C8, as stated, has \<open>extract("http://a.com http://a.com/")\<close> yield exactly one entry.
  The two matches differ by the trailing slash, which is not stripped, and a set of
  strings keeps both.
\<close>

theorem slash_variants_are_two_entries:
  "extractSources ''http://a.com http://a.com/'' = [''http://a.com'', ''http://a.com/'']
   \<and> length (extractSources ''http://a.com http://a.com/'') \<noteq> 1"
proof -
  have m: "url_matches ''http://a.com http://a.com/'' = [''http://a.com'', ''http://a.com/'']"
    by (simp add: url_match_at_def url_char_def is_space_def)
  have "extractSources ''http://a.com http://a.com/'' = [''http://a.com'', ''http://a.com/'']"
    unfolding extractSources_def m
    by (simp add: push_clean_def strip_trailing_def is_trail_punct_def new_Set_def set_add_def)
  then show ?thesis by simp
qed

text \<open>
  C8, amended. The extractor returns the matches of the URL pattern (\<open>http://\<close> or
  \<open>https://\<close> and then at least one character that is neither white space nor a closing
  parenthesis), each with its trailing run of \<open>.\<close>, \<open>,\<close>, \<open>;\<close>, \<open>:\<close> removed, those
  longer than 10 characters only, every URL once at its first occurrence. Extracting
  again from the results joined by spaces gives the same list, and
  \<open>extract("http://a.com http://a.com/")\<close> yields the two entries.
\<close>

theorem extract_sources_spec:
  "extractSources t
     = new_Set (filter (\<lambda>u. 10 < length u) (map strip_trailing (url_matches t)))
   \<and> (\<forall>m \<in> set (url_matches t).
        \<exists>body. body \<noteq> [] \<and> (\<forall>c \<in> set body. url_char c)
               \<and> (m = ''http://'' @ body \<or> m = ''https://'' @ body))
   \<and> (\<forall>m. \<exists>p. m = strip_trailing m @ p \<and> (\<forall>c \<in> set p. is_trail_punct c)
              \<and> (strip_trailing m \<noteq> [] \<longrightarrow> \<not> is_trail_punct (last (strip_trailing m))))
   \<and> (\<forall>xs :: string list. new_Set xs = rev (remdups (rev xs)))
   \<and> distinct (extractSources t)
   \<and> (\<forall>u \<in> set (extractSources t). 10 < length u)
   \<and> extractSources (join '' '' (extractSources t)) = extractSources t
   \<and> extractSources ''http://a.com http://a.com/'' = [''http://a.com'', ''http://a.com/'']"
proof -
  have a: "\<forall>m \<in> set (url_matches t).
        \<exists>body. body \<noteq> [] \<and> (\<forall>c \<in> set body. url_char c)
               \<and> (m = ''http://'' @ body \<or> m = ''https://'' @ body)"
    using url_matches_shape by blast
  have b: "\<forall>m. \<exists>p. m = strip_trailing m @ p \<and> (\<forall>c \<in> set p. is_trail_punct c)
              \<and> (strip_trailing m \<noteq> [] \<longrightarrow> \<not> is_trail_punct (last (strip_trailing m)))"
    using strip_trailing_decomp strip_trailing_last by blast
  have c: "\<forall>xs :: string list. new_Set xs = rev (remdups (rev xs))"
    using new_Set_first_seen by blast
  have d: "distinct (extractSources t)" by (simp add: extractSources_eq)
  have e: "\<forall>u \<in> set (extractSources t). 10 < length u" by (simp add: extractSources_eq)
  show ?thesis
    by (intro conjI extractSources_eq a b c d e extractSources_idempotent slash_variants)
qed

theorem extract_sources_spec_witness:
  "extractSources example_text = [''https://x.org/a,b'', ''http://a.com/page'']
   \<and> extractSources ''https://x.org/a,b http://a.com/page''
       = [''https://x.org/a,b'', ''http://a.com/page'']
   \<and> distinct (extractSources example_text)"
proof -
  note A = extract_sources_spec [of example_text]
  have v: "extractSources example_text = [''https://x.org/a,b'', ''http://a.com/page'']"
    by (simp add: extractSources_def example_text_def url_match_at_def url_char_def
        is_space_def push_clean_def strip_trailing_def is_trail_punct_def new_Set_def
        set_add_def Let_def)
  from A have "extractSources (join '' '' (extractSources example_text))
      = extractSources example_text" by blast
  then have w: "extractSources ''https://x.org/a,b http://a.com/page''
       = [''https://x.org/a,b'', ''http://a.com/page'']"
    unfolding v by simp
  from A have d: "distinct (extractSources example_text)" by blast
  show ?thesis by (intro conjI v w d)
qed

subsection \<open>Default model\<close>

lemma set_insert_by [simp]: "set (insert_by cmp x xs) = insert x (set xs)"
  by (induction xs) auto

lemma set_sort_by [simp]: "set (sort_by cmp xs) = set xs"
  unfolding sort_by_def by (induction xs) auto

text \<open>The comparator orders by version, then by the speed keyword.\<close>

lemma compare_models_le:
  "compare_models a b \<le> 0 \<longleftrightarrow>
     extractVersion (name b) < extractVersion (name a)
     \<or> (extractVersion (name b) = extractVersion (name a)
         \<and> (flash_name (name b) \<longrightarrow> flash_name (name a)))"
  by (auto simp: compare_models_def Let_def)

lemma compare_models_total: "compare_models a b \<le> 0 \<or> compare_models b a \<le> 0"
  unfolding compare_models_le by auto

lemma compare_models_trans:
  "compare_models a b \<le> 0 \<Longrightarrow> compare_models b c \<le> 0 \<Longrightarrow> compare_models a c \<le> 0"
  unfolding compare_models_le by auto

lemma insert_by_sorted:
  "sorted_wrt (\<lambda>a b. compare_models a b \<le> 0) xs \<Longrightarrow>
   sorted_wrt (\<lambda>a b. compare_models a b \<le> 0) (insert_by compare_models x xs)"
proof (induction xs)
  case Nil
  show ?case by simp
next
  case (Cons y ys)
  show ?case
  proof (cases "compare_models x y \<le> 0")
    case True
    with Cons.prems show ?thesis by (auto intro: compare_models_trans)
  next
    case False
    then have "compare_models y x \<le> 0" using compare_models_total by blast
    with False Cons show ?thesis by auto
  qed
qed

lemma sort_by_sorted: "sorted_wrt (\<lambda>a b. compare_models a b \<le> 0) (sort_by compare_models xs)"
  unfolding sort_by_def by (induction xs) (auto intro: insert_by_sorted)

lemma sort_by_head:
  assumes "sort_by compare_models xs = best # rest"
  shows "best \<in> set xs \<and> (\<forall>m \<in> set xs. compare_models best m \<le> 0)"
proof -
  have s: "set xs = insert best (set rest)"
    using set_sort_by [of compare_models xs] assms by simp
  from sort_by_sorted [of xs] assms have "\<forall>m \<in> set rest. compare_models best m \<le> 0" by simp
  moreover have "compare_models best best \<le> 0" using compare_models_total by blast
  ultimately show ?thesis using s by auto
qed

lemma candidates_subset: "set (candidates allow models) \<subseteq> set models"
  by (auto simp: candidates_def Let_def)

lemma candidates_gemini: "m \<in> set (candidates allow models) \<Longrightarrow> gemini_name (name m)"
  by (auto simp: candidates_def Let_def split: if_splits)

lemma candidates_nonempty:
  "\<exists>m \<in> set models. gemini_name (name m) \<Longrightarrow> candidates allow models \<noteq> []"
  by (auto simp: candidates_def Let_def filter_empty_conv)

lemma candidates_stable:
  "\<not> allow \<Longrightarrow> \<exists>m' \<in> set models. gemini_name (name m') \<and> stable_name (name m') \<Longrightarrow>
   m \<in> set (candidates allow models) \<Longrightarrow> stable_name (name m)"
  by (auto simp: candidates_def Let_def filter_empty_conv split: if_splits)

lemma names_lower:
  "toLowerCase ''gemini-2.5-flash'' = ''gemini-2.5-flash''"
  "toLowerCase ''gemini-2.0-flash'' = ''gemini-2.0-flash''"
  "toLowerCase ''gemini-1.5-flash'' = ''gemini-1.5-flash''"
  "toLowerCase ''gemini-1.5-pro'' = ''gemini-1.5-pro''"
  "toLowerCase ''gemini-pro'' = ''gemini-pro''"
  "toLowerCase ''gemini-pro-vision'' = ''gemini-pro-vision''"
  "toLowerCase ''text-bison'' = ''text-bison''"
  "toLowerCase ''gemini-exp-1206'' = ''gemini-exp-1206''"
  "toLowerCase ''Gemini-2.0-pro'' = ''gemini-2.0-pro''"
  "toLowerCase ''gemini-2.5-flash-preview'' = ''gemini-2.5-flash-preview''"
  by code_simp+

lemmas name_tests = gemini_name_def stable_name_def flash_name_def names_lower Let_def

lemma names_gemini:
  "gemini_name ''gemini-2.5-flash''" "gemini_name ''gemini-2.0-flash''"
  "gemini_name ''gemini-1.5-flash''" "gemini_name ''gemini-1.5-pro''"
  "gemini_name ''gemini-pro''" "gemini_name ''gemini-pro-vision''"
  "\<not> gemini_name ''text-bison''" "gemini_name ''gemini-exp-1206''"
  "gemini_name ''Gemini-2.0-pro''" "gemini_name ''gemini-2.5-flash-preview''"
  by (simp_all add: name_tests)

lemma names_stable:
  "stable_name ''gemini-2.5-flash''" "stable_name ''gemini-2.0-flash''"
  "stable_name ''gemini-1.5-flash''" "stable_name ''gemini-1.5-pro''"
  "stable_name ''gemini-pro''" "stable_name ''gemini-pro-vision''"
  "\<not> stable_name ''gemini-exp-1206''"
  "stable_name ''Gemini-2.0-pro''" "\<not> stable_name ''gemini-2.5-flash-preview''"
  by (simp_all add: name_tests)

lemma names_flash:
  "flash_name ''gemini-2.5-flash''" "flash_name ''gemini-2.0-flash''"
  "flash_name ''gemini-1.5-flash''" "\<not> flash_name ''gemini-1.5-pro''"
  "\<not> flash_name ''gemini-pro''" "\<not> flash_name ''gemini-pro-vision''"
  "\<not> flash_name ''gemini-exp-1206''"
  "\<not> flash_name ''Gemini-2.0-pro''" "flash_name ''gemini-2.5-flash-preview''"
  by (simp_all add: name_tests)

lemma names_version:
  "extractVersion ''gemini-2.5-flash'' = 5 / 2" "extractVersion ''gemini-2.0-flash'' = 2"
  "extractVersion ''gemini-1.5-flash'' = 3 / 2" "extractVersion ''gemini-1.5-pro'' = 3 / 2"
  "extractVersion ''gemini-pro'' = 0" "extractVersion ''gemini-pro-vision'' = 0"
  "extractVersion ''gemini-exp-1206'' = 1206"
  "extractVersion ''Gemini-2.0-pro'' = 2" "extractVersion ''gemini-2.5-flash-preview'' = 5 / 2"
  by (simp_all add: extractVersion_def is_digit_def digits_value_def Let_def)

lemma name_model_named [simp]: "name (model_named n) = n"
  by (simp add: model_named_def)

lemma select_fallback:
  "selectDefaultModel False (map model_named fallback_names) = Some ''gemini-2.5-flash''"
  by (simp add: selectDefaultModel_def candidates_def sort_by_def compare_models_def
      fallback_names_def names_gemini names_stable names_flash names_version)

lemma select_mixed:
  "selectDefaultModel False (map model_named mixed_names) = Some ''gemini-2.0-flash''"
  "selectDefaultModel True (map model_named mixed_names) = Some ''gemini-exp-1206''"
  by (simp_all add: selectDefaultModel_def candidates_def sort_by_def compare_models_def
      mixed_names_def names_gemini names_stable names_flash names_version)

lemma select_all_experimental:
  "selectDefaultModel False (map model_named [''gemini-2.5-flash-preview'', ''gemini-exp-1206''])
     = Some ''gemini-exp-1206''"
  by (simp add: selectDefaultModel_def candidates_def sort_by_def compare_models_def
      names_gemini names_stable names_flash names_version)

text \<open>
  C9. For a non-empty list of models the selector returns the name of one of them. When
  experimental models are not allowed and some model named after the product is stable,
  the name returned is stable; when none is, a name is returned all the same. Whenever
  some model is named after the product, the model returned is one of the candidates
  (the product's models, narrowed to the stable ones as above), no candidate has a
  greater version, and if a candidate with the same version carries the speed keyword
  then so does the model returned. Without any model named after the product, the first
  model is returned.
\<close>

theorem default_model_selection:
  assumes "models \<noteq> []"
  shows "\<exists>m \<in> set models.
      selectDefaultModel allow models = Some (name m)
      \<and> (\<not> allow \<and> (\<exists>m' \<in> set models. gemini_name (name m') \<and> stable_name (name m'))
           \<longrightarrow> stable_name (name m))
      \<and> ((\<exists>m' \<in> set models. gemini_name (name m')) \<longrightarrow>
            m \<in> set (candidates allow models)
            \<and> (\<forall>m' \<in> set (candidates allow models).
                  extractVersion (name m') \<le> extractVersion (name m)
                  \<and> (extractVersion (name m') = extractVersion (name m) \<and> flash_name (name m')
                       \<longrightarrow> flash_name (name m))))
      \<and> ((\<forall>m' \<in> set models. \<not> gemini_name (name m')) \<longrightarrow> m = hd models)"
proof (cases "\<exists>m' \<in> set models. gemini_name (name m')")
  case False
  from assms obtain first rest where ms: "models = first # rest" by (cases models) auto
  from False have "filter (\<lambda>m. gemini_name (name m)) models = []"
    by (simp add: filter_empty_conv)
  with ms have "selectDefaultModel allow models = Some (name first)"
    by (simp add: selectDefaultModel_def)
  with ms False show ?thesis by (intro bexI [of _ first]) auto
next
  case True
  from assms obtain first rest where ms: "models = first # rest" by (cases models) auto
  from True have ne: "filter (\<lambda>m. gemini_name (name m)) models \<noteq> []"
    by (simp add: filter_empty_conv)
  from candidates_nonempty [OF True, of allow]
  have "sort_by compare_models (candidates allow models) \<noteq> []"
    by (metis set_sort_by set_empty)
  then obtain best others where
    srt: "sort_by compare_models (candidates allow models) = best # others"
    by (cases "sort_by compare_models (candidates allow models)") auto
  from ms ne srt have sel: "selectDefaultModel allow models = Some (name best)"
    by (simp add: selectDefaultModel_def)
  from sort_by_head [OF srt] have b1: "best \<in> set (candidates allow models)"
    and b2: "\<forall>m \<in> set (candidates allow models). compare_models best m \<le> 0"
    by simp_all
  from b1 candidates_subset have b0: "best \<in> set models" by blast
  have st: "\<not> allow \<and> (\<exists>m' \<in> set models. gemini_name (name m') \<and> stable_name (name m'))
           \<longrightarrow> stable_name (name best)"
    using candidates_stable b1 by blast
  have mx: "\<forall>m' \<in> set (candidates allow models).
                  extractVersion (name m') \<le> extractVersion (name best)
                  \<and> (extractVersion (name m') = extractVersion (name best)
                       \<and> flash_name (name m') \<longrightarrow> flash_name (name best))"
    using b2 unfolding compare_models_le by auto
  from sel st b1 mx True show ?thesis by (intro bexI [of _ best] b0) auto
qed

theorem default_model_selection_witness:
  "map model_named mixed_names \<noteq> []
   \<and> gemini_name ''Gemini-2.0-pro'' \<and> stable_name ''Gemini-2.0-pro''
   \<and> selectDefaultModel False (map model_named mixed_names) = Some ''gemini-2.0-flash''
   \<and> stable_name ''gemini-2.0-flash''
   \<and> selectDefaultModel True (map model_named mixed_names) = Some ''gemini-exp-1206''
   \<and> selectDefaultModel False
        (map model_named [''gemini-2.5-flash-preview'', ''gemini-exp-1206''])
       = Some ''gemini-exp-1206''
   \<and> selectDefaultModel False (map model_named fallback_names) = Some ''gemini-2.5-flash''"
proof -
  have h: "map model_named mixed_names \<noteq> []" by (simp add: mixed_names_def)
  have g: "\<exists>m' \<in> set (map model_named mixed_names).
             gemini_name (name m') \<and> stable_name (name m')"
    by (simp add: mixed_names_def names_gemini names_stable)
  from default_model_selection [OF h, of False] obtain m where
    M: "selectDefaultModel False (map model_named mixed_names) = Some (name m)
      \<and> (\<not> False \<and> (\<exists>m' \<in> set (map model_named mixed_names).
               gemini_name (name m') \<and> stable_name (name m')) \<longrightarrow> stable_name (name m))
      \<and> ((\<exists>m' \<in> set (map model_named mixed_names). gemini_name (name m')) \<longrightarrow>
            m \<in> set (candidates False (map model_named mixed_names))
            \<and> (\<forall>m' \<in> set (candidates False (map model_named mixed_names)).
                  extractVersion (name m') \<le> extractVersion (name m)
                  \<and> (extractVersion (name m') = extractVersion (name m) \<and> flash_name (name m')
                       \<longrightarrow> flash_name (name m))))
      \<and> ((\<forall>m' \<in> set (map model_named mixed_names). \<not> gemini_name (name m'))
            \<longrightarrow> m = hd (map model_named mixed_names))"
    by (rule bexE)
  note m1 = M [THEN conjunct1]
  note m2 = M [THEN conjunct2, THEN conjunct1]
  from m1 select_mixed(1) have "name m = ''gemini-2.0-flash''" by simp
  with m2 g have s: "stable_name ''gemini-2.0-flash''" by simp
  show ?thesis
    by (intro conjI h names_gemini(9) names_stable(8) select_mixed s select_all_experimental
        select_fallback)
qed

subsection \<open>Iteration count\<close>

lemma loop_calls_bound:
  "length (calls (loop_state (research_loop svc host args i s)))
     \<le> length (calls s) + nat (maxIterations args - int i)"
proof (induction svc host args i s rule: research_loop.induct)
  case (1 svc host args i s)
  show ?case
  proof (cases "int i < maxIterations args")
    case False
    then show ?thesis by (simp add: loop_done)
  next
    case True
    note eff = iteration_effect [where svc=svc and host=host and args=args and i=i and s=s]
    show ?thesis
    proof (cases "iteration svc host args i s")
      case (Break s1)
      with True eff show ?thesis by (simp add: research_loop.simps)
    next
      case (Throw e1 s1)
      with True eff show ?thesis by (simp add: research_loop.simps)
    next
      case (Next s1)
      have eq: "research_loop svc host args i s = research_loop svc host args (Suc i) s1"
        using True Next by (subst research_loop.simps) simp
      from eff Next have l1: "length (calls s1) = Suc (length (calls s))" by simp
      from "1.IH" [OF True Next] l1 True show ?thesis unfolding eq by simp
    qed
  qed
qed

lemma single_pass:
  "length (calls (loop_state (research_loop example_service tiring_host (example_args (Some 1))
      0 (initial_state (example_args (Some 1)))))) = 1"
  by (simp add: loop_step_ok loop_done tiring_host_def)

text \<open>
  C4, as stated, asks for a clamp into the interval from 3 to 10. The source only takes
  the minimum with 10: a request of 1 gives one pass, and the run makes one call.
\<close>

theorem maxIterations_not_raised:
  "maxIterations (example_args (Some 1)) = 1
   \<and> maxIterations (example_args (Some 1)) \<noteq> max 3 (min 10 1)
   \<and> length (calls (loop_state (research_loop example_service tiring_host
        (example_args (Some 1)) 0 (initial_state (example_args (Some 1)))))) = 1"
  using single_pass by simp

text \<open>
  C4, amended: the effective iteration count is the request capped at 10, an absent
  request (or a request of 0) counts as 5, and a request below 3 is not raised; so
  every request from 3 to 10, the range the tool's schema admits, is used as it is. The
  loop makes at most that many calls.
\<close>

theorem maxIterations_capped:
  "maxIterations args \<le> 10
   \<and> (max_iterations args = None \<longrightarrow> maxIterations args = 5)
   \<and> (max_iterations args = Some 0 \<longrightarrow> maxIterations args = 5)
   \<and> (\<forall>n. max_iterations args = Some n \<longrightarrow> n \<noteq> 0 \<longrightarrow> maxIterations args = min n 10)
   \<and> (\<forall>n. max_iterations args = Some n \<longrightarrow> 3 \<le> n \<longrightarrow> n \<le> 10 \<longrightarrow> maxIterations args = n)
   \<and> (\<forall>n. max_iterations args = Some n \<longrightarrow> 10 < n \<longrightarrow> maxIterations args = 10)
   \<and> length (calls (loop_state (research_loop svc host args 0 (initial_state args))))
       \<le> nat (maxIterations args)"
proof -
  have count: "length (calls (loop_state (research_loop svc host args 0 (initial_state args))))
       \<le> nat (maxIterations args)"
    using loop_calls_bound [of svc host args 0 "initial_state args"] by simp
  show ?thesis
  proof (cases "max_iterations args")
    case None
    with count show ?thesis by (simp add: maxIterations_def)
  next
    case (Some n)
    with count show ?thesis by (cases "n = 0") (simp_all add: maxIterations_def)
  qed
qed

theorem maxIterations_capped_witness:
  "maxIterations (example_args None) = 5
   \<and> maxIterations (example_args (Some 0)) = 5
   \<and> maxIterations (example_args (Some 7)) = 7
   \<and> maxIterations (example_args (Some 12)) = 10
   \<and> maxIterations (example_args (Some 2)) = 2
   \<and> length (calls (loop_state (research_loop example_service tiring_host
        (example_args (Some 12)) 0 (initial_state (example_args (Some 12)))))) \<le> 10"
proof -
  have m: "max_iterations (example_args n) = n" for n by (simp add: example_args_def)
  note A = maxIterations_capped [of "example_args None" example_service tiring_host]
  note B = maxIterations_capped [of "example_args (Some 7)" example_service tiring_host]
  note C = maxIterations_capped [of "example_args (Some 12)" example_service tiring_host]
  note D = maxIterations_capped [of "example_args (Some 2)" example_service tiring_host]
  note Z = maxIterations_capped [of "example_args (Some 0)" example_service tiring_host]
  from A have a: "maxIterations (example_args None) = 5" by (simp add: m)
  from Z have z: "maxIterations (example_args (Some 0)) = 5" by (simp add: m)
  from B have b: "maxIterations (example_args (Some 7)) = 7" by (simp add: m)
  from C have c: "maxIterations (example_args (Some 12)) = 10" by (simp add: m)
  from D have d: "maxIterations (example_args (Some 2)) = 2" by (simp add: m)
  from C c have e: "length (calls (loop_state (research_loop example_service tiring_host
        (example_args (Some 12)) 0 (initial_state (example_args (Some 12)))))) \<le> 10"
    by simp
  show ?thesis by (intro conjI a z b c d e)
qed

end
